theory Spec2Isabelle
  imports Main "HOL-Library.Word" "HOL-Library.Sublist" "HOL-Library.Finite_Map"
begin

section \<open>JavaScript strings\<close>

text \<open>
  A JavaScript string is a sequence of 16-bit code units. String literals of the source are
  written \<open>js ''...''\<close>; \<open>js\<close> maps each ASCII character to its code unit.
\<close>

type_synonym code_unit = "16 word"
type_synonym jsstring = "code_unit list"

definition js :: "string \<Rightarrow> jsstring" where
  "js s = map (\<lambda>c. of_nat (of_char c)) s"

text \<open>
  \<open>String.prototype.trim\<close> removes the code units of the ECMAScript productions
  WhiteSpace and LineTerminator from both ends: TAB, LF, VT, FF, CR, SPACE, NBSP, the other
  space separators of Unicode (all in the basic plane), LS, PS and the byte order mark.
\<close>

definition isWhiteSpace :: "code_unit \<Rightarrow> bool" where
  "isWhiteSpace c \<longleftrightarrow> c \<in> set [0x09, 0x0A, 0x0B, 0x0C, 0x0D, 0x20, 0xA0, 0x1680,
     0x2000, 0x2001, 0x2002, 0x2003, 0x2004, 0x2005, 0x2006, 0x2007, 0x2008, 0x2009, 0x200A,
     0x2028, 0x2029, 0x202F, 0x205F, 0x3000, 0xFEFF]"

definition trim :: "jsstring \<Rightarrow> jsstring" where
  "trim s = rev (dropWhile isWhiteSpace (rev (dropWhile isWhiteSpace s)))"

text \<open>
  \<open>s.split(',')\<close>: the pieces of \<open>s\<close> between its commas, in order. A string with
  \<open>n\<close> commas has \<open>n + 1\<close> pieces; the empty string has the one piece \<open>""\<close>.
\<close>

definition comma :: code_unit where
  "comma = 0x2C"

fun split_comma :: "jsstring \<Rightarrow> jsstring list" where
  "split_comma [] = [[]]"
| "split_comma (c # cs) =
     (if c = comma then [] # split_comma cs
      else (case split_comma cs of
              [] \<Rightarrow> [[c]]
            | p # ps \<Rightarrow> (c # p) # ps))"

text \<open>
  \<open>xs.join(sep)\<close> and the expression
  \<open>value.split(',').map(k => k.trim()).filter(Boolean)\<close> that \<open>buildSearchPayload\<close>
  applies to the keywords, excluded-folders and file-extensions fields. \<open>Boolean\<close> is
  false on the empty string only.
\<close>

fun join :: "jsstring \<Rightarrow> jsstring list \<Rightarrow> jsstring" where
  "join sep [] = []"
| "join sep [x] = x"
| "join sep (x # y # ys) = x @ sep @ join sep (y # ys)"

definition split_trim_filter :: "jsstring \<Rightarrow> jsstring list" where
  "split_trim_filter v = filter (\<lambda>k. k \<noteq> []) (map trim (split_comma v))"

section \<open>Numbers\<close>

text \<open>
  The numbers of the program are the results of \<open>parseInt\<close> and their products with a
  unit: \<open>NaN\<close>, the two infinities, and double-precision values that are integers. A
  double carries 53 significant bits: \<open>round_to_double\<close> gives the integer of at most 53
  significant bits that is nearest to a natural number, the even one of two equally near
  ones, and \<open>number_of_int\<close> is the number value of an integer, an infinity from
  \<open>2^1024\<close> on.
\<close>

datatype jsnumber = NaN | Finite int | PosInfinity | NegInfinity

fun bit_length :: "nat \<Rightarrow> nat" where
  "bit_length n = (if n = 0 then 0 else Suc (bit_length (n div 2)))"

declare bit_length.simps [simp del]

definition round_to_double :: "nat \<Rightarrow> nat" where
  "round_to_double m =
     (let k = bit_length m
      in if k \<le> 53 then m
         else let e = k - 53;
                  q = m div 2 ^ e;
                  r = m mod 2 ^ e;
                  q = (if 2 * r > 2 ^ e \<or> (2 * r = 2 ^ e \<and> odd q) then q + 1 else q)
              in q * 2 ^ e)"

definition number_of_int :: "int \<Rightarrow> jsnumber" where
  "number_of_int i =
     (let m = round_to_double (nat \<bar>i\<bar>)
      in if m \<ge> 2 ^ 1024 then (if i < 0 then NegInfinity else PosInfinity)
         else Finite (if i < 0 then - int m else int m))"

text \<open>
  \<open>!value\<close>, \<open>value <= 0\<close> and \<open>value * m\<close> for a positive integer \<open>m\<close>. The product
  of two doubles is the double nearest to the exact product.
\<close>

fun falsy :: "jsnumber \<Rightarrow> bool" where
  "falsy NaN = True"
| "falsy (Finite v) = (v = 0)"
| "falsy PosInfinity = False"
| "falsy NegInfinity = False"

fun le_zero :: "jsnumber \<Rightarrow> bool" where
  "le_zero NaN = False"
| "le_zero (Finite v) = (v \<le> 0)"
| "le_zero PosInfinity = False"
| "le_zero NegInfinity = True"

fun times :: "jsnumber \<Rightarrow> int \<Rightarrow> jsnumber" where
  "times NaN m = NaN"
| "times (Finite v) m = number_of_int (v * m)"
| "times PosInfinity m = PosInfinity"
| "times NegInfinity m = NegInfinity"

text \<open>
  \<open>parseInt(str, 10)\<close>: skip leading white space, read an optional sign, then the longest
  run of decimal digits, and nothing after it; \<open>NaN\<close> when there is no digit, otherwise
  the number value of the integer that the digits denote (the language lets an engine
  ignore the digits after the twentieth; they are taken as read).
\<close>

definition isDigit :: "code_unit \<Rightarrow> bool" where
  "isDigit c \<longleftrightarrow> 0x30 \<le> c \<and> c \<le> 0x39"

definition digit_value :: "code_unit \<Rightarrow> int" where
  "digit_value c = uint c - 48"

definition decimal :: "jsstring \<Rightarrow> int" where
  "decimal z = foldl (\<lambda>a d. 10 * a + digit_value d) 0 z"

definition parseInt :: "jsstring \<Rightarrow> jsnumber" where
  "parseInt str =
     (let s = dropWhile isWhiteSpace str;
          sign = (case s of [] \<Rightarrow> 1 | c # cs \<Rightarrow> if c = 0x2D then - 1 else 1);
          body = (case s of [] \<Rightarrow> [] | c # cs \<Rightarrow> if c = 0x2D \<or> c = 0x2B then cs else s);
          z = takeWhile isDigit body
      in if z = [] then NaN else number_of_int (sign * decimal z))"

section \<open>Building the search request\<close>

datatype size_unit = KB | MB | GB

fun multipliers :: "size_unit \<Rightarrow> int" where
  "multipliers KB = 1024"
| "multipliers MB = 1024 ^ 2"
| "multipliers GB = 1024 ^ 3"

text \<open>\<open>convertSizeToBytes(value, unit)\<close>; \<open>null\<close> is \<open>None\<close>.\<close>

definition convertSizeToBytes :: "jsnumber \<Rightarrow> size_unit \<Rightarrow> jsnumber option" where
  "convertSizeToBytes val unit =
     (if falsy val \<or> le_zero val then None else Some (times val (multipliers unit)))"

text \<open>
  The values that \<open>buildSearchPayload\<close> reads from the search form, and the request object
  it returns. The unit selectors offer KB, MB and GB; one radio button of the search type is
  checked. The type of the sizes is a parameter of the request: numbers in the object that
  \<open>buildSearchPayload\<close> returns, integers in its JSON text.
\<close>

record form =
  search_path_value :: jsstring
  keywords_value :: jsstring
  search_type_checked :: jsstring
  excluded_folders_value :: jsstring
  file_extensions_value :: jsstring
  include_dot_folders_checked :: bool
  case_sensitive_checked :: bool
  use_regex_checked :: bool
  file_category_value :: jsstring
  min_size_value :: jsstring
  min_size_unit :: size_unit
  max_size_value :: jsstring
  max_size_unit :: size_unit

record 'n payload =
  search_path :: jsstring
  "keywords" :: "jsstring list"
  search_type :: jsstring
  excluded_folders :: "jsstring list"
  file_extensions :: "jsstring list"
  include_dot_folders :: bool
  case_sensitive :: bool
  use_regex :: bool
  file_category :: jsstring
  min_size :: "'n option"
  max_size :: "'n option"

definition buildSearchPayload :: "form \<Rightarrow> jsnumber payload" where
  "buildSearchPayload f =
     (let minSizeValue = parseInt (min_size_value f);
          maxSizeValue = parseInt (max_size_value f)
      in \<lparr> search_path = search_path_value f,
           keywords = split_trim_filter (keywords_value f),
           search_type = search_type_checked f,
           excluded_folders = split_trim_filter (excluded_folders_value f),
           file_extensions = split_trim_filter (file_extensions_value f),
           include_dot_folders = include_dot_folders_checked f,
           case_sensitive = case_sensitive_checked f,
           use_regex = use_regex_checked f,
           file_category = file_category_value f,
           min_size = convertSizeToBytes minSizeValue (min_size_unit f),
           max_size = convertSizeToBytes maxSizeValue (max_size_unit f) \<rparr>)"

text \<open>
  \<open>JSON.stringify\<close> writes a finite number as it is and \<open>null\<close> for \<open>NaN\<close> and the
  infinities; \<open>JSON.parse\<close> reads the text back. \<open>json_payload\<close> is the request as its
  JSON text holds it, \<open>of_json\<close> the object parsed from that text.
\<close>

fun json_number :: "jsnumber option \<Rightarrow> int option" where
  "json_number (Some (Finite v)) = Some v"
| "json_number n = None"

definition json_payload :: "jsnumber payload \<Rightarrow> int payload" where
  "json_payload p =
     \<lparr> search_path = search_path p,
       keywords = keywords p,
       search_type = search_type p,
       excluded_folders = excluded_folders p,
       file_extensions = file_extensions p,
       include_dot_folders = include_dot_folders p,
       case_sensitive = case_sensitive p,
       use_regex = use_regex p,
       file_category = file_category p,
       min_size = json_number (min_size p),
       max_size = json_number (max_size p) \<rparr>"

definition of_json :: "int payload \<Rightarrow> jsnumber payload" where
  "of_json p =
     \<lparr> search_path = search_path p,
       keywords = keywords p,
       search_type = search_type p,
       excluded_folders = excluded_folders p,
       file_extensions = file_extensions p,
       include_dot_folders = include_dot_folders p,
       case_sensitive = case_sensitive p,
       use_regex = use_regex p,
       file_category = file_category p,
       min_size = map_option Finite (min_size p),
       max_size = map_option Finite (max_size p) \<rparr>"

section \<open>Escaping\<close>

text \<open>
  \<open>escapeHTML(str)\<close> sets \<open>str\<close> as the text content of a fresh \<open>p\<close> element and returns
  the element's \<open>innerHTML\<close>. The serialisation of a text node replaces \<open>&\<close> by
  \<open>&amp;\<close>, the no-break space by \<open>&nbsp;\<close>, \<open><\<close> by \<open>&lt;\<close> and \<open>>\<close> by
  \<open>&gt;\<close>, and leaves every other code unit as it is.
\<close>

definition escape_unit :: "code_unit \<Rightarrow> jsstring" where
  "escape_unit c =
     (if c = 0x26 then js ''&amp;''
      else if c = 0xA0 then js ''&nbsp;''
      else if c = 0x3C then js ''&lt;''
      else if c = 0x3E then js ''&gt;''
      else [c])"

definition escapeHTML :: "jsstring \<Rightarrow> jsstring" where
  "escapeHTML str = concat (map escape_unit str)"

section \<open>Persisted store\<close>

text \<open>
  \<open>localStorage\<close> holds the JSON text of the history array under \<open>searchHistory\<close> and
  the JSON text of the object from names to requests under \<open>savedSearches\<close>. The model
  keeps the values that \<open>JSON.parse\<close> reads from these texts. \<open>None\<close> is an absent key,
  for which the source parses \<open>'[]'\<close> and \<open>'{}'\<close>. Writes to the store are taken to
  succeed.

  \<open>searches[name] = v\<close> on the object that \<open>JSON.parse\<close> returned creates or overwrites
  the own property \<open>name\<close>, with one exception of the language: for the name
  \<open>__proto__\<close>, when the object has no own property of that name, the assignment reaches
  the accessor inherited from \<open>Object.prototype\<close>, which replaces the prototype of the
  object and creates no own property, so \<open>JSON.stringify\<close> writes nothing for it.

  \<open>searches[name]\<close> gives the own property of that name; without one it gives what the
  object inherits from \<open>Object.prototype\<close> under the name, a function or an object that
  is no request, and \<open>undefined\<close> for every other name.
\<close>

type_synonym searches = "(jsstring, int payload) fmap"

definition set_property :: "searches \<Rightarrow> jsstring \<Rightarrow> int payload \<Rightarrow> searches" where
  "set_property obj name v =
     (if name = js ''__proto__'' \<and> fmlookup obj name = None then obj else fmupd name v obj)"

definition Object_prototype_names :: "jsstring list" where
  "Object_prototype_names =
     [js ''constructor'', js ''__defineGetter__'', js ''__defineSetter__'',
      js ''hasOwnProperty'', js ''__lookupGetter__'', js ''__lookupSetter__'',
      js ''isPrototypeOf'', js ''propertyIsEnumerable'', js ''toString'', js ''valueOf'',
      js ''__proto__'', js ''toLocaleString'']"

datatype property_value = Own "int payload" | Inherited | Undefined

definition get_property :: "searches \<Rightarrow> jsstring \<Rightarrow> property_value" where
  "get_property obj name =
     (case fmlookup obj name of
        Some v \<Rightarrow> Own v
      | None \<Rightarrow> if name \<in> set Object_prototype_names then Inherited else Undefined)"

text \<open>
  \<open>loadSavedSearches\<close> writes one option for each stored name into the select element,
  as \<open><option value="${name}">\<close> with the name not escaped, and the value of the select
  is the \<open>value\<close> attribute of the selected option. The attribute ends at the first
  double quote: \<open>option_value name\<close> is the value of the option written for \<open>name\<close>.
  Names with \<open>&\<close>, NUL or CR before that quote, which the parser of the markup rewrites,
  are outside the model (\<open>None\<close>).
\<close>

definition option_value :: "jsstring \<Rightarrow> jsstring option" where
  "option_value name =
     (let v = takeWhile (\<lambda>c. c \<noteq> 0x22) name
      in if list_ex (\<lambda>c. c = 0x26 \<or> c = 0x00 \<or> c = 0x0D) v then None else Some v)"

definition MAX_HISTORY :: nat where
  "MAX_HISTORY = 15"

section \<open>Controller state\<close>

text \<open>
  The module variables and the parts of the page that the search functions read or write.
  Every \<open>WebSocket\<close> that \<open>startSearch\<close> creates is an entry of \<open>sockets\<close>, identified by
  its position; the module variable \<open>ws\<close> refers to one of them. A socket records its ready
  state, the payload that its handlers have captured, and the \<open>start_search\<close> commands sent
  through it, as the JSON text carries them. The log and the result list hold the markup
  of their children. Audio playback and the rendering of the stored history into its list
  are not part of the model.
\<close>

datatype ready_state = CONNECTING | OPEN | CLOSING | CLOSED

record socket =
  readyState :: ready_state
  request :: "jsnumber payload"
  sent :: "int payload list"

datatype node = TextNode jsstring | ResultItem jsstring

record state =
  searchHistory :: "int payload list option"
  savedSearches :: "searches option"
  sockets :: "socket list"
  ws :: "nat option"
  searchResults :: "jsstring list"
  logDiv :: "jsstring list"
  logProgressElement :: "nat option"
  resultsDiv :: "node list"
  fileCategorySelect :: jsstring
  awaitingData :: "jsstring option"
  terminateScan :: "jsstring option"
  stopButtonSpan :: "jsstring option"
  searchForm_hidden :: bool
  scanControlsContainer_hidden :: bool
  stopButton_hidden :: bool
  stopButton_disabled :: bool
  newSearchButton_hidden :: bool
  statusSection_hidden :: bool
  resultsSection_hidden :: bool
  exportButton_hidden :: bool
  savedSearchesSelect_disabled :: bool
  loadSearchButton_disabled :: bool
  deleteSearchButton_disabled :: bool

text \<open>
  \<open>currentTranslations[key] || fallback\<close>: the fallback is taken for a missing and for an
  empty translation.
\<close>

definition or_default :: "jsstring option \<Rightarrow> jsstring \<Rightarrow> jsstring" where
  "or_default t fallback = (case t of None \<Rightarrow> fallback | Some s \<Rightarrow> if s = [] then fallback else s)"

text \<open>
  \<open>resultsDiv.textContent.startsWith('>')\<close>. The text of a result item begins with the
  line break that opens the markup template of \<open>appendSingleResult\<close>.
\<close>

fun textContent_startsWith_gt :: "node list \<Rightarrow> bool" where
  "textContent_startsWith_gt [] = False"
| "textContent_startsWith_gt (TextNode s # ns) =
     (case s of [] \<Rightarrow> textContent_startsWith_gt ns | c # cs \<Rightarrow> c = 0x3E)"
| "textContent_startsWith_gt (ResultItem m # ns) = False"

definition nl :: jsstring where
  "nl = [0x0A]"

definition result_item_html :: "jsstring \<Rightarrow> jsstring" where
  \<open>result_item_html path =
     nl @ js ''        <span class="result-path">'' @ escapeHTML path @ js ''</span>'' @
     nl @ js ''        <div class="result-actions">'' @
     nl @ js ''            <i class="fas fa-folder-open action-btn" data-path="'' @ escapeHTML path @
          js ''" data-action="folder" title="Open Containing Folder"></i>'' @
     nl @ js ''            <i class="fas fa-file-alt action-btn" data-path="'' @ escapeHTML path @
          js ''" data-action="file" title="Open File"></i>'' @
     nl @ js ''        </div>''\<close>

definition appendSingleResult :: "jsstring \<Rightarrow> state \<Rightarrow> state" where
  "appendSingleResult path st =
     (let st = (if textContent_startsWith_gt (resultsDiv st) then st\<lparr>resultsDiv := []\<rparr> else st)
      in st\<lparr>resultsDiv := resultsDiv st @ [ResultItem (result_item_html path)]\<rparr>)"

definition renderResults :: "jsstring list \<Rightarrow> state \<Rightarrow> state" where
  "renderResults results st =
     (let st = st\<lparr>resultsDiv := []\<rparr>
      in if results \<noteq> []
         then (foldl (\<lambda>s path. appendSingleResult path s) st results)\<lparr>exportButton_hidden := False\<rparr>
         else if textContent_startsWith_gt (resultsDiv st)
              then st\<lparr>resultsDiv := [TextNode (js ''> NO MATCHING ITEMS FOUND.'')]\<rparr>
              else st)"

definition appendLog :: "jsstring \<Rightarrow> bool \<Rightarrow> state \<Rightarrow> state" where
  "appendLog html clear st =
     (let st = (if clear then st\<lparr>logDiv := [], logProgressElement := None\<rparr> else st)
      in st\<lparr>logDiv := logDiv st @ [html]\<rparr>)"

fun number_text :: "nat \<Rightarrow> jsstring" where
  "number_text n =
     (if n < 10 then [of_nat (48 + n)]
      else number_text (n div 10) @ [of_nat (48 + n mod 10)])"

definition updateScanProgress :: "nat \<Rightarrow> nat \<Rightarrow> state \<Rightarrow> state" where
  "updateScanProgress scanned found st =
     (let st = (case logProgressElement st of
                  None \<Rightarrow> st\<lparr>logDiv := logDiv st @ [[]],
                             logProgressElement := Some (length (logDiv st))\<rparr>
                | Some i \<Rightarrow> st)
      in case logProgressElement st of
           None \<Rightarrow> st
         | Some i \<Rightarrow>
             st\<lparr>logDiv := (logDiv st)
                   [i := js ''<div>> SCANNING... [ITEMS: '' @ number_text scanned @
                         js '' | MATCHES: '' @ number_text found @ js '']</div>'']\<rparr>)"

text \<open>
  \<open>element.innerHTML = text\<close> for a text without markup: one text node, none for the
  empty text.
\<close>

definition innerHTML_text :: "jsstring \<Rightarrow> node list" where
  "innerHTML_text s = (if s = [] then [] else [TextNode s])"

definition resetUIBeforeSearch :: "state \<Rightarrow> state" where
  "resetUIBeforeSearch st =
     st\<lparr>searchResults := [],
        resultsSection_hidden := False,
        resultsDiv := innerHTML_text (or_default (awaitingData st) (js ''> AWAITING DATA...'')),
        statusSection_hidden := False,
        exportButton_hidden := True,
        searchForm_hidden := True,
        scanControlsContainer_hidden := False,
        stopButton_hidden := False,
        stopButton_disabled := False,
        stopButtonSpan := (case stopButtonSpan st of
                             None \<Rightarrow> None
                           | Some t \<Rightarrow> Some (or_default (terminateScan st) (js ''TERMINATE SCAN''))),
        newSearchButton_hidden := True\<rparr>"

definition resetUIForNewSearch :: "state \<Rightarrow> state" where
  "resetUIForNewSearch st =
     st\<lparr>searchForm_hidden := False,
        scanControlsContainer_hidden := True,
        statusSection_hidden := True,
        resultsSection_hidden := True,
        exportButton_hidden := True,
        logDiv := [],
        resultsDiv := [],
        logProgressElement := None\<rparr>"

section \<open>History and saved searches\<close>

definition stored_history :: "state \<Rightarrow> int payload list" where
  "stored_history st = (case searchHistory st of None \<Rightarrow> [] | Some h \<Rightarrow> h)"

definition stored_searches :: "state \<Rightarrow> searches" where
  "stored_searches st = (case savedSearches st of None \<Rightarrow> fmempty | Some m \<Rightarrow> m)"

text \<open>
  \<open>history.unshift(payload); history = history.slice(0, MAX_HISTORY)\<close>, and the list is
  written back as JSON text.
\<close>

definition addSearchToHistory :: "jsnumber payload \<Rightarrow> state \<Rightarrow> state" where
  "addSearchToHistory p st =
     (let history = stored_history st;
          history = json_payload p # history;
          history = take MAX_HISTORY history
      in st\<lparr>searchHistory := Some history\<rparr>)"

text \<open>
  The click listener of the history list. On the delete button of the item with index
  \<open>index\<close> it runs \<open>history.splice(index, 1)\<close>, which removes nothing when the index is
  not below the length; on the item itself it hands \<open>history[index]\<close> to \<open>populateForm\<close>.
\<close>

definition searchHistoryList_click_delete :: "nat \<Rightarrow> state \<Rightarrow> state" where
  "searchHistoryList_click_delete index st =
     (let history = stored_history st;
          history = take index history @ drop (Suc index) history
      in st\<lparr>searchHistory := Some history\<rparr>)"

definition searchHistoryList_click_item :: "nat \<Rightarrow> state \<Rightarrow> int payload option" where
  "searchHistoryList_click_item index st =
     (let history = stored_history st
      in if index < length history then Some (history ! index) else None)"

text \<open>
  \<open>loadSavedSearches\<close> enables the select element and the load and delete buttons when
  there is a stored name and disables them otherwise; the options it writes are described
  by \<open>option_value\<close>.
\<close>

definition loadSavedSearches :: "state \<Rightarrow> state" where
  "loadSavedSearches st =
     (let searches = stored_searches st;
          none = (fmdom searches = {||})
      in st\<lparr>loadSearchButton_disabled := none,
            deleteSearchButton_disabled := none,
            savedSearchesSelect_disabled := none\<rparr>)"

text \<open>
  \<open>saveCurrentSearch\<close>; \<open>name\<close> is what \<open>prompt\<close> returned: \<open>None\<close> for a cancelled
  prompt (\<open>null\<close>), otherwise the text entered.
\<close>

definition saveCurrentSearch :: "jsstring option \<Rightarrow> form \<Rightarrow> state \<Rightarrow> state" where
  "saveCurrentSearch name f st =
     (case name of
        None \<Rightarrow> st
      | Some n \<Rightarrow>
          if n = [] then st
          else let searches = stored_searches st;
                   searches = set_property searches n (json_payload (buildSearchPayload f));
                   st = st\<lparr>savedSearches := Some searches\<rparr>
               in loadSavedSearches st)"

text \<open>
  \<open>loadSelectedSearch\<close>, when the user has selected the option that was written for the
  stored name \<open>chosen\<close>: the value of the select is the value of that option, and the
  result is the value \<open>searches[savedSearchesSelect.value]\<close> that is passed to
  \<open>populateForm\<close> (which returns at once on \<open>undefined\<close>). \<open>None\<close> when there is no
  such option, or when its value is outside the model.
\<close>

definition loadSelectedSearch :: "jsstring \<Rightarrow> state \<Rightarrow> property_value option" where
  "loadSelectedSearch chosen st =
     (let searches = stored_searches st
      in if chosen |\<notin>| fmdom searches then None
         else case option_value chosen of
                None \<Rightarrow> None
              | Some selected \<Rightarrow> Some (get_property searches selected))"

section \<open>The search session\<close>

text \<open>
  The decoded messages of the server; \<open>Unknown\<close> is a message of any other type, for which
  \<open>handleWebSocketMessage\<close> has no branch.
\<close>

datatype session_event =
    Config "jsstring list"
  | Error jsstring
  | ScanStart jsstring
  | ItemFound jsstring
  | ScanProgress nat nat
  | ScanComplete "jsstring list" jsstring
  | Unknown jsstring

text \<open>
  \<open>if (ws && ws.readyState === WebSocket.OPEN) ws.close()\<close>: \<open>close\<close> on an open socket
  starts the closing handshake, and the ready state is \<open>CLOSING\<close> from then on.
\<close>

definition close_if_open :: "state \<Rightarrow> state" where
  "close_if_open st =
     (case ws st of
        None \<Rightarrow> st
      | Some i \<Rightarrow>
          if i < length (sockets st) \<and> readyState (sockets st ! i) = OPEN
          then st\<lparr>sockets := (sockets st)[i := (sockets st ! i)\<lparr>readyState := CLOSING\<rparr>]\<rparr>
          else st)"

text \<open>
  \<open>ws.send(JSON.stringify({ type: "start_search", payload }))\<close> on the socket that the
  module variable refers to: an open socket transmits; a connecting one throws
  \<open>InvalidStateError\<close>, which ends the handler at its last statement; a closing or closed
  one drops the data.
\<close>

definition ws_send :: "jsnumber payload \<Rightarrow> state \<Rightarrow> state" where
  "ws_send p st =
     (case ws st of
        None \<Rightarrow> st
      | Some i \<Rightarrow>
          if i < length (sockets st) \<and> readyState (sockets st ! i) = OPEN
          then st\<lparr>sockets := (sockets st)
                 [i := (sockets st ! i)\<lparr>sent := sent (sockets st ! i) @ [json_payload p]\<rparr>]\<rparr>
          else st)"

definition startSearch :: "form \<Rightarrow> state \<Rightarrow> state" where
  "startSearch f st =
     (let payload = buildSearchPayload f;
          st = addSearchToHistory payload st
      in st\<lparr>sockets := sockets st @ [\<lparr>readyState = CONNECTING, request = payload, sent = []\<rparr>],
            ws := Some (length (sockets st))\<rparr>)"

definition ws_onopen :: "jsnumber payload \<Rightarrow> state \<Rightarrow> state" where
  \<open>ws_onopen payload st =
     (let st = resetUIBeforeSearch st;
          initialLogMessage = js ''> SEARCHING FOR: "'' @ join (js '', '') (keywords payload) @ js ''"'';
          st = appendLog initialLogMessage True st;
          st = appendLog (js ''> TARGET PATH: '' @ search_path payload) False st
      in ws_send payload st)\<close>

definition ws_onerror :: "state \<Rightarrow> state" where
  \<open>ws_onerror st =
     appendLog (js ''<span class="status-error">> WEBSOCKET ERROR: Connection failed.</span>'') False st\<close>

definition ws_onclose :: "state \<Rightarrow> state" where
  "ws_onclose st =
     (let st = (if \<not> scanControlsContainer_hidden st
                then st\<lparr>stopButton_hidden := True, newSearchButton_hidden := False\<rparr>
                else st)
      in st\<lparr>logProgressElement := None\<rparr>)"

definition handleWebSocketMessage :: "session_event \<Rightarrow> state \<Rightarrow> state" where
  \<open>handleWebSocketMessage data st =
     (case data of
        Config file_categories \<Rightarrow>
          if file_categories \<noteq> []
          then st\<lparr>fileCategorySelect :=
                    concat (map (\<lambda>cat. js ''<option value="'' @ cat @ js ''">'' @ cat @ js ''</option>'')
                                file_categories)\<rparr>
          else st
      | Error message \<Rightarrow>
          close_if_open
            (appendLog (js ''<span class="status-error">> ERROR: '' @ message @ js ''</span>'') False st)
      | ScanStart task_id \<Rightarrow>
          appendLog (js ''> TASK ID '' @ task_id @ js '' INITIATED.'') False st
      | ItemFound path \<Rightarrow> appendSingleResult path st
      | ScanProgress scanned found \<Rightarrow> updateScanProgress scanned found st
      | ScanComplete results summary \<Rightarrow>
          (let st = st\<lparr>logProgressElement := None\<rparr>;
               st = appendLog (js ''<span class="status-complete">> '' @ summary @ js ''</span>'') False st;
               st = st\<lparr>searchResults := results\<rparr>
           in renderResults (searchResults st) st)
      | Unknown t \<Rightarrow> st)\<close>

definition stopSearch :: "state \<Rightarrow> state" where
  \<open>stopSearch st =
     (let st = close_if_open st;
          st = appendLog (js ''<span class="status-error">> SCAN MANUALLY TERMINATED.</span>'') False st
      in st\<lparr>stopButton_disabled := True,
            stopButtonSpan := (case stopButtonSpan st of
                                 None \<Rightarrow> None
                               | Some t \<Rightarrow> Some (js ''TERMINATED''))\<rparr>)\<close>

text \<open>
  The events of the transport. The \<open>WebSocket\<close> interface fires \<open>open\<close> on a connecting
  socket, which is open from then on; it fires \<open>message\<close> only while the ready state is
  \<open>OPEN\<close>, so a message that arrives after \<open>close()\<close> was called reaches no handler;
  when the connection has ended it sets the ready state to \<open>CLOSED\<close> and fires
  \<open>close\<close>, once, preceded by \<open>error\<close> when the connection has failed. Each handler is
  the one that \<open>startSearch\<close> has attached to the socket; all of them share the module
  variables.
\<close>

definition set_readyState :: "nat \<Rightarrow> ready_state \<Rightarrow> state \<Rightarrow> state" where
  "set_readyState i r st = st\<lparr>sockets := (sockets st)[i := (sockets st ! i)\<lparr>readyState := r\<rparr>]\<rparr>"

definition open_event :: "nat \<Rightarrow> state \<Rightarrow> state" where
  "open_event i st =
     (if i < length (sockets st) \<and> readyState (sockets st ! i) = CONNECTING
      then ws_onopen (request (sockets st ! i)) (set_readyState i OPEN st)
      else st)"

definition message_event :: "nat \<Rightarrow> session_event \<Rightarrow> state \<Rightarrow> state" where
  "message_event i data st =
     (if i < length (sockets st) \<and> readyState (sockets st ! i) = OPEN
      then handleWebSocketMessage data st
      else st)"

definition close_event :: "nat \<Rightarrow> bool \<Rightarrow> state \<Rightarrow> state" where
  "close_event i failed st =
     (if i < length (sockets st) \<and> readyState (sockets st ! i) \<noteq> CLOSED
      then let st = set_readyState i CLOSED st;
               st = (if failed then ws_onerror st else st)
           in ws_onclose st
      else st)"

text \<open>
  A run of the page: the submission of the search form, the stop and new-search buttons,
  the events of the transport and the delete buttons of the history list, in the order in
  which they happen.
\<close>

datatype action =
    Submit form
  | Stop
  | NewSearch
  | Opened nat
  | Message nat session_event
  | Failed nat
  | Closed nat
  | HistoryDelete nat

fun step :: "state \<Rightarrow> action \<Rightarrow> state" where
  "step st (Submit f) = startSearch f st"
| "step st Stop = stopSearch st"
| "step st NewSearch = resetUIForNewSearch st"
| "step st (Opened i) = open_event i st"
| "step st (Message i data) = message_event i data st"
| "step st (Failed i) = close_event i True st"
| "step st (Closed i) = close_event i False st"
| "step st (HistoryDelete index) = searchHistoryList_click_delete index st"

definition run :: "state \<Rightarrow> action list \<Rightarrow> state" where
  "run st as = foldl step st as"

text \<open>
  The page with an empty store, no socket, and the layout that \<open>resetUIForNewSearch\<close>
  establishes.
\<close>

definition idle_state :: state where
  "idle_state =
     \<lparr>searchHistory = None, savedSearches = None, sockets = [], ws = None,
      searchResults = [], logDiv = [], logProgressElement = None, resultsDiv = [],
      fileCategorySelect = [], awaitingData = None, terminateScan = None,
      stopButtonSpan = Some (js ''TERMINATE SCAN''),
      searchForm_hidden = False, scanControlsContainer_hidden = True,
      stopButton_hidden = False, stopButton_disabled = False, newSearchButton_hidden = True,
      statusSection_hidden = True, resultsSection_hidden = True, exportButton_hidden = True,
      savedSearchesSelect_disabled = True, loadSearchButton_disabled = True,
      deleteSearchButton_disabled = True\<rparr>"

section \<open>Notions used by the properties\<close>

text \<open>
  A string is free of raw markup characters when it holds no \<open><\<close> and no \<open>>\<close> and each
  of its \<open>&\<close> opens one of the four character references that the serialisation writes.
  \<open>unescapeHTML\<close> reads these references back.
\<close>

definition entity_follows :: "jsstring \<Rightarrow> bool" where
  "entity_follows cs \<longleftrightarrow>
     prefix (js ''amp;'') cs \<or> prefix (js ''nbsp;'') cs \<or>
     prefix (js ''lt;'') cs \<or> prefix (js ''gt;'') cs"

fun no_raw_markup :: "jsstring \<Rightarrow> bool" where
  "no_raw_markup [] = True"
| "no_raw_markup (c # cs) =
     (c \<noteq> 0x3C \<and> c \<noteq> 0x3E \<and> (if c = 0x26 then entity_follows cs else True) \<and>
      no_raw_markup cs)"

fun unescapeHTML :: "jsstring \<Rightarrow> jsstring" where
  "unescapeHTML [] = []"
| "unescapeHTML (c # cs) =
     (if c = 0x26 \<and> prefix (js ''amp;'') cs then 0x26 # unescapeHTML (drop 4 cs)
      else if c = 0x26 \<and> prefix (js ''nbsp;'') cs then 0xA0 # unescapeHTML (drop 5 cs)
      else if c = 0x26 \<and> prefix (js ''lt;'') cs then 0x3C # unescapeHTML (drop 3 cs)
      else if c = 0x26 \<and> prefix (js ''gt;'') cs then 0x3E # unescapeHTML (drop 3 cs)
      else c # unescapeHTML cs)"

text \<open>
  The markup of a result item opens with the \<open>result-path\<close> span, whose text is the
  path that the item shows: \<open>item_path\<close> reads it from the markup, and \<open>shown_paths\<close>
  are the paths of the items of a result list.
\<close>

definition result_item_open :: jsstring where
  \<open>result_item_open = nl @ js ''        <span class="result-path">''\<close>

definition item_path :: "jsstring \<Rightarrow> jsstring" where
  "item_path m =
     unescapeHTML (takeWhile (\<lambda>c. c \<noteq> 0x3C) (drop (length result_item_open) m))"

fun shown_paths :: "node list \<Rightarrow> jsstring list" where
  "shown_paths [] = []"
| "shown_paths (TextNode s # ns) = shown_paths ns"
| "shown_paths (ResultItem m # ns) = item_path m # shown_paths ns"



text \<open>The events that the transport fires on the socket \<open>i\<close>.\<close>

fun on_channel :: "nat \<Rightarrow> action \<Rightarrow> bool" where
  "on_channel i (Opened j) = (j = i)"
| "on_channel i (Message j data) = (j = i)"
| "on_channel i (Failed j) = (j = i)"
| "on_channel i (Closed j) = (j = i)"
| "on_channel i a = False"

text \<open>
  Concrete inputs: a filled search form, the page after one submission (the socket still
  connecting), the page during a scan, the page after three searches, and the page after
  two submissions whose channels have both opened.
\<close>

definition sample_form :: form where
  "sample_form =
     \<lparr>search_path_value = js ''C:/docs'', keywords_value = js '' report , ,tax,'',
      search_type_checked = js ''file_name'', excluded_folders_value = [],
      file_extensions_value = js ''.txt'', include_dot_folders_checked = False,
      case_sensitive_checked = False, use_regex_checked = False, file_category_value = [],
      min_size_value = js ''2'', min_size_unit = MB, max_size_value = js ''0'',
      max_size_unit = KB\<rparr>"

definition form_with_keywords :: "jsstring \<Rightarrow> form" where
  "form_with_keywords k = sample_form\<lparr>keywords_value := k\<rparr>"

definition connecting_state :: state where
  "connecting_state = startSearch sample_form idle_state"

definition scanning_state :: state where
  "scanning_state =
     run idle_state [Submit sample_form, Opened 0, Message 0 (ScanStart (js ''1''))]"


definition history_state :: state where
  "history_state =
     run idle_state
       (map Submit [form_with_keywords (js ''a''), form_with_keywords (js ''b''),
                    form_with_keywords (js ''c'')])"

text \<open>
  The channel \<open>i\<close> has been closed or is closing; and the page after a search was
  started on a new channel in the state \<open>s\<close>, the channel has opened and the server has
  announced the scan.
\<close>

definition closed_or_closing :: "nat \<Rightarrow> state \<Rightarrow> bool" where
  "closed_or_closing i st \<longleftrightarrow>
     i < length (sockets st) \<and>
     (readyState (sockets st ! i) = CLOSING \<or> readyState (sockets st ! i) = CLOSED)"

definition scan_started :: "state \<Rightarrow> form \<Rightarrow> jsstring \<Rightarrow> state" where
  "scan_started s f t =
     (let i = length (sockets s) in run s [Submit f, Opened i, Message i (ScanStart t)])"

section \<open>Lists built from comma-separated fields\<close>

lemma trim_suffix:
  "dropWhile isWhiteSpace s =
     trim s @ rev (takeWhile isWhiteSpace (rev (dropWhile isWhiteSpace s)))"
proof -
  let ?t = "dropWhile isWhiteSpace s"
  have "rev (takeWhile isWhiteSpace (rev ?t) @ dropWhile isWhiteSpace (rev ?t)) = ?t"
    by (simp only: takeWhile_dropWhile_id rev_rev_ident)
  then have "rev (dropWhile isWhiteSpace (rev ?t)) @ rev (takeWhile isWhiteSpace (rev ?t)) = ?t"
    by (simp only: rev_append)
  then show ?thesis by (simp only: trim_def)
qed

lemma trim_last: "trim s \<noteq> [] \<Longrightarrow> \<not> isWhiteSpace (last (trim s))"
  unfolding trim_def by (simp add: last_rev hd_dropWhile)

lemma trim_hd:
  assumes "trim s \<noteq> []"
  shows "\<not> isWhiteSpace (hd (trim s))"
proof -
  let ?t = "dropWhile isWhiteSpace s"
  let ?r = "rev (takeWhile isWhiteSpace (rev ?t))"
  have t: "?t = trim s @ ?r" by (rule trim_suffix)
  from assms t have "?t \<noteq> []" by (metis append_is_Nil_conv)
  then have "\<not> isWhiteSpace (hd ?t)" by (rule hd_dropWhile)
  moreover from assms t have "hd ?t = hd (trim s)" by (metis hd_append2)
  ultimately show ?thesis by simp
qed

lemma trim_only_whitespace:
  "\<exists>pre suf. s = pre @ trim s @ suf \<and>
     (\<forall>c \<in> set pre. isWhiteSpace c) \<and> (\<forall>c \<in> set suf. isWhiteSpace c)"
proof -
  let ?t = "dropWhile isWhiteSpace s"
  let ?r = "rev (takeWhile isWhiteSpace (rev ?t))"
  have "s = takeWhile isWhiteSpace s @ ?t" by simp
  also have "?t = trim s @ ?r" by (rule trim_suffix)
  finally have "s = takeWhile isWhiteSpace s @ trim s @ ?r" .
  moreover have "\<forall>c \<in> set (takeWhile isWhiteSpace s). isWhiteSpace c"
    by (auto dest: set_takeWhileD)
  moreover have "\<forall>c \<in> set ?r. isWhiteSpace c"
    by (auto dest: set_takeWhileD)
  ultimately show ?thesis by blast
qed

lemma split_comma_nonempty: "split_comma s \<noteq> []"
  by (induction s) (auto split: list.splits)

lemma join_split_comma: "join [comma] (split_comma s) = s"
proof (induction s)
  case Nil
  show ?case by simp
next
  case (Cons c cs)
  obtain p ps where ps: "split_comma cs = p # ps"
    using split_comma_nonempty [of cs] by (cases "split_comma cs") auto
  show ?case
  proof (cases "c = comma")
    case True
    with Cons ps show ?thesis by simp
  next
    case False
    with Cons ps show ?thesis by (cases ps) auto
  qed
qed

lemma split_comma_no_comma: "p \<in> set (split_comma s) \<Longrightarrow> comma \<notin> set p"
proof (induction s arbitrary: p)
  case Nil
  then show ?case by simp
next
  case (Cons c cs)
  then show ?case
    by (cases "split_comma cs") (auto split: if_splits)
qed

lemma split_trim_filter_clean:
  "k \<in> set (split_trim_filter v) \<Longrightarrow>
     k \<noteq> [] \<and> \<not> isWhiteSpace (hd k) \<and> \<not> isWhiteSpace (last k)"
  unfolding split_trim_filter_def using trim_hd trim_last by auto

lemma split_trim_filter_subseq: "subseq (split_trim_filter v) (map trim (split_comma v))"
  unfolding split_trim_filter_def by simp

lemma count_list_filter_nonempty:
  "e \<noteq> [] \<Longrightarrow> count_list (filter (\<lambda>k. k \<noteq> []) xs) e = count_list xs e"
  by (induction xs) auto

lemma split_trim_filter_sample:
  "split_trim_filter (js '' report , ,tax,'') = [js ''report'', js ''tax'']"
  by (simp add: split_trim_filter_def js_def trim_def isWhiteSpace_def comma_def)

text \<open>
  C6. For every raw text \<open>v\<close> of a comma-separated field, the list that
  \<open>buildSearchPayload\<close> builds from it has no empty entry and no entry that begins or ends
  with white space. The list keeps the order of the field: it is a subsequence of the
  trimmed pieces of \<open>v\<close>, each non-empty trimmed piece occurs in it as often as among the
  pieces, the pieces are the comma-free stretches of \<open>v\<close> (joined by commas they give
  \<open>v\<close> back), and trimming a piece removes white space at its two ends only. The keywords,
  excluded-folders and file-extensions lists of the request are built this way.
\<close>

theorem split_trim_filter_entries:
  "(\<forall>k \<in> set (split_trim_filter v).
       k \<noteq> [] \<and> \<not> isWhiteSpace (hd k) \<and> \<not> isWhiteSpace (last k))
   \<and> subseq (split_trim_filter v) (map trim (split_comma v))
   \<and> (\<forall>e. e \<noteq> [] \<longrightarrow>
         count_list (split_trim_filter v) e = count_list (map trim (split_comma v)) e)
   \<and> join [comma] (split_comma v) = v
   \<and> (\<forall>p \<in> set (split_comma v). comma \<notin> set p)
   \<and> (\<forall>p. \<exists>pre suf. p = pre @ trim p @ suf \<and>
         (\<forall>c \<in> set pre. isWhiteSpace c) \<and> (\<forall>c \<in> set suf. isWhiteSpace c))
   \<and> keywords (buildSearchPayload f) = split_trim_filter (keywords_value f)
   \<and> excluded_folders (buildSearchPayload f) = split_trim_filter (excluded_folders_value f)
   \<and> file_extensions (buildSearchPayload f) = split_trim_filter (file_extensions_value f)"
proof -
  have "\<forall>k \<in> set (split_trim_filter v).
       k \<noteq> [] \<and> \<not> isWhiteSpace (hd k) \<and> \<not> isWhiteSpace (last k)"
    using split_trim_filter_clean [of _ v] by blast
  moreover have "\<forall>e. e \<noteq> [] \<longrightarrow>
         count_list (split_trim_filter v) e = count_list (map trim (split_comma v)) e"
    by (simp add: split_trim_filter_def count_list_filter_nonempty)
  moreover have "\<forall>p \<in> set (split_comma v). comma \<notin> set p"
    using split_comma_no_comma [of _ v] by blast
  moreover have "\<forall>p. \<exists>pre suf. p = pre @ trim p @ suf \<and>
         (\<forall>c \<in> set pre. isWhiteSpace c) \<and> (\<forall>c \<in> set suf. isWhiteSpace c)"
    using trim_only_whitespace by blast
  moreover have "keywords (buildSearchPayload f) = split_trim_filter (keywords_value f)"
    and "excluded_folders (buildSearchPayload f) = split_trim_filter (excluded_folders_value f)"
    and "file_extensions (buildSearchPayload f) = split_trim_filter (file_extensions_value f)"
    by (simp_all add: buildSearchPayload_def Let_def)
  ultimately show ?thesis
    using split_trim_filter_subseq [of v] join_split_comma [of v] by blast
qed

theorem split_trim_filter_entries_witness:
  "keywords (buildSearchPayload sample_form) = [js ''report'', js ''tax'']
   \<and> js ''tax'' \<in> set (split_trim_filter (js '' report , ,tax,''))
   \<and> js ''tax'' \<noteq> [] \<and> \<not> isWhiteSpace (hd (js ''tax'')) \<and> \<not> isWhiteSpace (last (js ''tax''))
   \<and> join [comma] (split_comma (js '' report , ,tax,'')) = js '' report , ,tax,''"
proof -
  have m: "js ''tax'' \<in> set (split_trim_filter (js '' report , ,tax,''))"
    by (simp add: split_trim_filter_sample)
  have k: "keywords_value sample_form = js '' report , ,tax,''"
    by (simp add: sample_form_def)
  from m k show ?thesis
    using split_trim_filter_entries [of "js '' report , ,tax,''" sample_form]
    by (simp add: split_trim_filter_sample)
qed

section \<open>Sizes in bytes\<close>

lemma bit_length_0: "bit_length 0 = 0"
  by (simp add: bit_length.simps [of 0])

lemma bit_length_le: "m < 2 ^ k \<Longrightarrow> bit_length m \<le> k"
proof (induction k arbitrary: m)
  case 0
  then show ?case by (simp add: bit_length_0)
next
  case (Suc k)
  show ?case
  proof (cases "m = 0")
    case True
    then show ?thesis by (simp add: bit_length_0)
  next
    case False
    from Suc.prems have "m div 2 < 2 ^ k" by simp
    then have "bit_length (m div 2) \<le> k" by (rule Suc.IH)
    with False show ?thesis by (simp add: bit_length.simps [of m])
  qed
qed

lemma round_to_double_exact:
  assumes "m < 2 ^ (53 + j)" and "2 ^ j dvd m"
  shows "round_to_double m = m"
proof (cases "bit_length m \<le> 53")
  case True
  then show ?thesis by (simp add: round_to_double_def)
next
  case False
  let ?e = "bit_length m - 53"
  from assms(1) have "bit_length m \<le> 53 + j" by (rule bit_length_le)
  then have "?e \<le> j" by simp
  then have "(2::nat) ^ ?e dvd 2 ^ j" by (rule le_imp_power_dvd)
  from this assms(2) have d: "2 ^ ?e dvd m" by (rule dvd_trans)
  then have r: "m mod 2 ^ ?e = 0" by simp
  from d have q: "m div 2 ^ ?e * 2 ^ ?e = m" by simp
  from False r q show ?thesis
    by (simp add: round_to_double_def Let_def)
qed

lemma number_of_int_exact:
  assumes "\<bar>i\<bar> < 2 ^ (53 + j)" and "2 ^ j dvd i" and "j \<le> 900"
  shows "number_of_int i = Finite i"
proof -
  let ?m = "nat \<bar>i\<bar>"
  from assms(1) have "int ?m < 2 ^ (53 + j)" by simp
  then have m: "?m < 2 ^ (53 + j)" by (metis of_nat_less_numeral_power_cancel_iff)
  from assms(2) have "2 ^ j dvd \<bar>i\<bar>" by simp
  then have "int (2 ^ j) dvd int ?m" by simp
  then have d: "2 ^ j dvd ?m" by (simp only: int_dvd_int_iff)
  from m d have e: "round_to_double ?m = ?m" by (rule round_to_double_exact)
  from assms(3) have "(2::nat) ^ (53 + j) \<le> 2 ^ 1024"
    by (intro power_increasing) simp_all
  with m have "?m < 2 ^ 1024" by (rule less_le_trans)
  then have "\<not> 2 ^ 1024 \<le> round_to_double ?m" by (simp only: e not_le)
  then show ?thesis by (simp only: number_of_int_def Let_def e if_False) simp
qed

lemma number_of_int_small: "\<bar>i\<bar> < 2 ^ 53 \<Longrightarrow> number_of_int i = Finite i"
  using number_of_int_exact [of i 0] by simp

lemma times_multipliers:
  assumes "0 < v" and "v < 2 ^ 53"
  shows "times (Finite v) (multipliers u) = Finite (v * multipliers u)"
proof (cases u)
  case KB
  have "\<bar>v * 1024\<bar> < 2 ^ (53 + 10)" using assms by simp
  moreover have "(2::int) ^ 10 dvd v * 1024" by simp
  ultimately have "number_of_int (v * 1024) = Finite (v * 1024)"
    by (rule number_of_int_exact) simp
  with KB show ?thesis by simp
next
  case MB
  have "\<bar>v * 1024 ^ 2\<bar> < 2 ^ (53 + 20)" using assms by simp
  moreover have "(2::int) ^ 20 dvd v * 1024 ^ 2" by simp
  ultimately have "number_of_int (v * 1024 ^ 2) = Finite (v * 1024 ^ 2)"
    by (rule number_of_int_exact) simp
  with MB show ?thesis by simp
next
  case GB
  have "\<bar>v * 1024 ^ 3\<bar> < 2 ^ (53 + 30)" using assms by simp
  moreover have "(2::int) ^ 30 dvd v * 1024 ^ 3" by simp
  ultimately have "number_of_int (v * 1024 ^ 3) = Finite (v * 1024 ^ 3)"
    by (rule number_of_int_exact) simp
  with GB show ?thesis by simp
qed

lemma digit_not_space: "isDigit c \<Longrightarrow> \<not> isWhiteSpace c"
  unfolding isDigit_def isWhiteSpace_def
  by (auto simp: word_le_def)

lemma digit_not_sign: "isDigit c \<Longrightarrow> c \<noteq> 0x2D \<and> c \<noteq> 0x2B"
  unfolding isDigit_def by auto

lemma takeWhile_digits:
  assumes "\<forall>c \<in> set ds. isDigit c" and "rest = [] \<or> \<not> isDigit (hd rest)"
  shows "takeWhile isDigit (ds @ rest) = ds"
  using assms by (cases rest) (simp_all add: takeWhile_append2)

lemma dropWhile_spaces:
  assumes "\<forall>c \<in> set w. isWhiteSpace c" and "s = [] \<or> \<not> isWhiteSpace (hd s)"
  shows "dropWhile isWhiteSpace (w @ s) = s"
  using assms by (cases s) (simp_all add: dropWhile_append2)

lemma parseInt_digits:
  assumes "\<forall>c \<in> set w. isWhiteSpace c" and "ds \<noteq> []" and "\<forall>c \<in> set ds. isDigit c"
    and "rest = [] \<or> \<not> isDigit (hd rest)"
  shows "parseInt (w @ ds @ rest) = number_of_int (decimal ds)"
    and "parseInt (w @ 0x2D # ds @ rest) = number_of_int (- decimal ds)"
proof -
  obtain d ds' where ds: "ds = d # ds'" using assms(2) by (cases ds) auto
  with assms(3) have d: "isDigit d" by simp
  have t: "takeWhile isDigit (ds @ rest) = ds"
    using assms(3,4) by (rule takeWhile_digits)
  have "dropWhile isWhiteSpace (w @ ds @ rest) = ds @ rest"
    using assms(1) by (rule dropWhile_spaces) (simp add: ds digit_not_space [OF d])
  then show "parseInt (w @ ds @ rest) = number_of_int (decimal ds)"
    using t digit_not_sign [OF d] by (simp add: parseInt_def Let_def ds)
  have "dropWhile isWhiteSpace (w @ 0x2D # ds @ rest) = 0x2D # ds @ rest"
    using assms(1) by (rule dropWhile_spaces) (simp add: isWhiteSpace_def)
  then show "parseInt (w @ 0x2D # ds @ rest) = number_of_int (- decimal ds)"
    using t by (simp add: parseInt_def Let_def assms(2))
qed

lemma parseInt_no_digit:
  assumes "\<forall>c \<in> set w. isWhiteSpace c"
    and "s = [] \<or> (\<not> isWhiteSpace (hd s) \<and> \<not> isDigit (hd s) \<and> hd s \<noteq> 0x2D \<and> hd s \<noteq> 0x2B)"
  shows "parseInt (w @ s) = NaN"
proof -
  have dw: "dropWhile isWhiteSpace (w @ s) = s"
    using assms(1) by (rule dropWhile_spaces) (use assms(2) in auto)
  show ?thesis
    unfolding parseInt_def Let_def dw
    by (cases s) (use assms(2) in auto)
qed

lemma parseInt_sample:
  "parseInt (js ''2'') = Finite 2" "parseInt (js ''0'') = Finite 0"
  "parseInt (js '' -7x'') = Finite (- 7)" "parseInt (js ''x'') = NaN"
  "parseInt (js ''0.5'') = Finite 0" "parseInt (js ''1.5'') = Finite 1"
  by (simp_all add: parseInt_def js_def isWhiteSpace_def isDigit_def digit_value_def decimal_def
        number_of_int_small)

lemma bit_length_eq: "2 ^ k \<le> m \<Longrightarrow> m < 2 ^ Suc k \<Longrightarrow> bit_length m = Suc k"
proof (induction k arbitrary: m)
  case 0
  then have "m = Suc 0" by simp
  then show ?case by (simp add: bit_length.simps [of "Suc 0"] bit_length_0)
next
  case (Suc k)
  from Suc.prems have "2 ^ k \<le> m div 2" and "m div 2 < 2 ^ Suc k" by simp_all
  then have "bit_length (m div 2) = Suc k" by (rule Suc.IH)
  moreover from Suc.prems have "m \<noteq> 0" by auto
  ultimately show ?case by (simp add: bit_length.simps [of m])
qed

lemma round_to_double_tie: "round_to_double (2 ^ 53 + 1) = 2 ^ 53"
proof -
  have "bit_length (2 ^ 53 + 1) = Suc 53"
    by (rule bit_length_eq) simp_all
  then show ?thesis by (simp add: round_to_double_def Let_def)
qed

lemma parseInt_rounds: "parseInt (js ''9007199254740993'') = Finite 9007199254740992"
proof -
  have "parseInt (js ''9007199254740993'') = number_of_int 9007199254740993"
    by (simp add: parseInt_def js_def isWhiteSpace_def isDigit_def digit_value_def decimal_def)
  moreover have "round_to_double 9007199254740993 = 9007199254740992"
    using round_to_double_tie by simp
  ultimately show ?thesis
    by (simp add: number_of_int_def Let_def)
qed

text \<open>
  C7, as the code has it. The size fields of the request are \<open>convertSizeToBytes\<close> of
  the number that \<open>parseInt\<close> reads from the size field and of the selected unit.
  \<open>parseInt\<close> reads the integer part only: after white space and a minus sign it takes
  the leading run of digits and nothing that follows it, and gives \<open>NaN\<close> when there is
  no digit. The field is absent (\<open>null\<close>) when that number is \<open>NaN\<close> or not positive;
  when it is a positive integer below \<open>2^53\<close> the field is that integer times 1024 for
  KB, times \<open>1024 * 1024\<close> for MB and times \<open>1024 * 1024 * 1024\<close> for GB.
\<close>

theorem size_fields_in_bytes:
  "min_size (buildSearchPayload f) =
     convertSizeToBytes (parseInt (min_size_value f)) (min_size_unit f)
   \<and> max_size (buildSearchPayload f) =
       convertSizeToBytes (parseInt (max_size_value f)) (max_size_unit f)
   \<and> ((\<forall>c \<in> set w. isWhiteSpace c) \<and> ds \<noteq> [] \<and> (\<forall>c \<in> set ds. isDigit c) \<and>
        (rest = [] \<or> \<not> isDigit (hd rest)) \<longrightarrow>
          parseInt (w @ ds @ rest) = number_of_int (decimal ds) \<and>
          parseInt (w @ 0x2D # ds @ rest) = number_of_int (- decimal ds))
   \<and> ((\<forall>c \<in> set w. isWhiteSpace c) \<and>
        (rest = [] \<or> (\<not> isWhiteSpace (hd rest) \<and> \<not> isDigit (hd rest) \<and>
                       hd rest \<noteq> 0x2D \<and> hd rest \<noteq> 0x2B)) \<longrightarrow>
          parseInt (w @ rest) = NaN)
   \<and> (\<bar>v\<bar> < 2 ^ 53 \<longrightarrow> number_of_int v = Finite v)
   \<and> convertSizeToBytes NaN u = None
   \<and> (v \<le> 0 \<longrightarrow> convertSizeToBytes (Finite v) u = None)
   \<and> (0 < v \<and> v < 2 ^ 53 \<longrightarrow>
        convertSizeToBytes (Finite v) u = Some (Finite (v * multipliers u)))
   \<and> multipliers KB = 1024 \<and> multipliers MB = 1024 * 1024 \<and> multipliers GB = 1024 * 1024 * 1024"
proof -
  have a: "min_size (buildSearchPayload f) =
       convertSizeToBytes (parseInt (min_size_value f)) (min_size_unit f)"
    and b: "max_size (buildSearchPayload f) =
       convertSizeToBytes (parseInt (max_size_value f)) (max_size_unit f)"
    by (simp_all add: buildSearchPayload_def Let_def)
  have c: "(\<forall>c \<in> set w. isWhiteSpace c) \<and> ds \<noteq> [] \<and> (\<forall>c \<in> set ds. isDigit c) \<and>
        (rest = [] \<or> \<not> isDigit (hd rest)) \<longrightarrow>
          parseInt (w @ ds @ rest) = number_of_int (decimal ds) \<and>
          parseInt (w @ 0x2D # ds @ rest) = number_of_int (- decimal ds)"
    using parseInt_digits [of w ds rest] by blast
  have d: "(\<forall>c \<in> set w. isWhiteSpace c) \<and>
        (rest = [] \<or> (\<not> isWhiteSpace (hd rest) \<and> \<not> isDigit (hd rest) \<and>
                       hd rest \<noteq> 0x2D \<and> hd rest \<noteq> 0x2B)) \<longrightarrow>
          parseInt (w @ rest) = NaN"
    using parseInt_no_digit [of w rest] by blast
  have e: "\<bar>v\<bar> < 2 ^ 53 \<longrightarrow> number_of_int v = Finite v"
    using number_of_int_small [of v] by blast
  have g: "convertSizeToBytes NaN u = None"
    and h: "v \<le> 0 \<longrightarrow> convertSizeToBytes (Finite v) u = None"
    by (auto simp: convertSizeToBytes_def)
  have i: "0 < v \<and> v < 2 ^ 53 \<longrightarrow>
        convertSizeToBytes (Finite v) u = Some (Finite (v * multipliers u))"
    using times_multipliers [of v u] by (auto simp: convertSizeToBytes_def)
  have j: "multipliers KB = 1024 \<and> multipliers MB = 1024 * 1024 \<and>
      multipliers GB = 1024 * 1024 * 1024"
    by simp
  from a b c d e g h i j show ?thesis by blast
qed

theorem size_fields_in_bytes_witness:
  "min_size (buildSearchPayload sample_form) = Some (Finite (2 * (1024 * 1024)))
   \<and> max_size (buildSearchPayload sample_form) = None
   \<and> parseInt (js ''1'' @ js ''.5'') = Finite 1
   \<and> parseInt (js '' '' @ 0x2D # js ''7'' @ js ''x'') = Finite (- 7)
   \<and> parseInt (js ''x'') = NaN
   \<and> convertSizeToBytes (Finite 3) GB = Some (Finite (3 * (1024 * 1024 * 1024)))
   \<and> convertSizeToBytes (Finite (- 7)) KB = None"
proof -
  have m: "min_size_value sample_form = js ''2''" "min_size_unit sample_form = MB"
    "max_size_value sample_form = js ''0''" "max_size_unit sample_form = KB"
    by (simp_all add: sample_form_def)
  have d: "decimal (js ''1'') = 1" "decimal (js ''7'') = 7"
    by (simp_all add: decimal_def digit_value_def js_def)
  have w: "\<forall>c \<in> set (js '' ''). isWhiteSpace c" "\<forall>c \<in> set (js ''1''). isDigit c"
    "\<forall>c \<in> set (js ''7''). isDigit c" "\<not> isDigit (hd (js ''.5''))" "\<not> isDigit (hd (js ''x''))"
    "\<not> isWhiteSpace (hd (js ''x''))" "hd (js ''x'') \<noteq> 0x2D" "hd (js ''x'') \<noteq> 0x2B"
    "js ''1'' \<noteq> []" "js ''7'' \<noteq> []" "js ''.5'' \<noteq> []" "js ''x'' \<noteq> []"
    by (simp_all add: js_def isWhiteSpace_def isDigit_def)
  show ?thesis
    using size_fields_in_bytes [of sample_form "[]" "js ''1''" "js ''.5''" 2 MB]
      size_fields_in_bytes [of sample_form "js '' ''" "js ''7''" "js ''x''" 0 KB]
      size_fields_in_bytes [of sample_form "[]" "js ''7''" "js ''x''" 3 GB]
      size_fields_in_bytes [of sample_form "[]" "js ''7''" "js ''x''" "- 7" KB]
    by (simp add: m d w parseInt_sample number_of_int_small)
qed

text \<open>
  C7 as stated fails for a size with a fraction, a value that \<open>populateForm\<close> itself
  writes into the field: for the positive value 0.5 the field is absent, and for 1.5 KB it
  is \<open>1 * 1024\<close> and not \<open>1.5 * 1024 = 1536\<close>.
\<close>

theorem size_with_fraction_counterexample:
  "min_size (buildSearchPayload (sample_form\<lparr>min_size_value := js ''0.5'', min_size_unit := KB\<rparr>))
     = None
   \<and> min_size (buildSearchPayload (sample_form\<lparr>min_size_value := js ''1.5'', min_size_unit := KB\<rparr>))
     = Some (Finite 1024)
   \<and> min_size (buildSearchPayload (sample_form\<lparr>min_size_value := js ''1.5'', min_size_unit := KB\<rparr>))
     \<noteq> Some (Finite 1536)"
  by (simp add: buildSearchPayload_def Let_def parseInt_sample convertSizeToBytes_def
        number_of_int_small)

section \<open>Escaped paths\<close>

lemma escapeHTML_Nil: "escapeHTML [] = []"
  by (simp add: escapeHTML_def)

lemma escapeHTML_Cons: "escapeHTML (c # cs) = escape_unit c @ escapeHTML cs"
  by (simp add: escapeHTML_def)

lemma no_raw_markup_escapeHTML: "no_raw_markup (escapeHTML s)"
  by (induction s)
     (simp_all add: escapeHTML_Cons escapeHTML_Nil escape_unit_def js_def entity_follows_def)

lemma unescapeHTML_escapeHTML: "unescapeHTML (escapeHTML s) = s"
  by (induction s)
     (simp_all add: escapeHTML_Cons escapeHTML_Nil escape_unit_def js_def)

lemma lt_notin_escapeHTML: "0x3C \<notin> set (escapeHTML s)"
  by (induction s) (simp_all add: escapeHTML_Cons escapeHTML_Nil escape_unit_def js_def)

lemma gt_notin_escapeHTML: "0x3E \<notin> set (escapeHTML s)"
  by (induction s) (simp_all add: escapeHTML_Cons escapeHTML_Nil escape_unit_def js_def)

lemma count_list_append: "count_list (xs @ ys) c = count_list xs c + count_list ys c"
  by (induction xs) auto

lemma count_list_notin: "c \<notin> set xs \<Longrightarrow> count_list xs c = 0"
  by (induction xs) auto

lemma result_item_html_lt: "count_list (result_item_html path) 0x3C = 8"
  by (simp add: result_item_html_def count_list_append count_list_notin lt_notin_escapeHTML)
     (simp add: js_def nl_def)

lemma result_item_html_gt: "count_list (result_item_html path) 0x3E = 8"
  by (simp add: result_item_html_def count_list_append count_list_notin gt_notin_escapeHTML)
     (simp add: js_def nl_def)

lemma result_item_html_open:
  "\<exists>r. result_item_html path = result_item_open @ escapeHTML path @ 0x3C # r"
  by (simp add: result_item_html_def result_item_open_def js_def)

lemma item_path_result_item_html: "item_path (result_item_html path) = path"
proof -
  obtain r where r: "result_item_html path = result_item_open @ escapeHTML path @ 0x3C # r"
    using result_item_html_open by blast
  have "\<forall>c \<in> set (escapeHTML path). c \<noteq> 0x3C"
    using lt_notin_escapeHTML [of path] by auto
  then have "takeWhile (\<lambda>c. c \<noteq> 0x3C) (escapeHTML path @ 0x3C # r) = escapeHTML path"
    by (simp add: takeWhile_append2)
  then show ?thesis
    by (simp add: item_path_def r unescapeHTML_escapeHTML)
qed

text \<open>
  C9. For every string \<open>s\<close>, \<open>escapeHTML s\<close> holds no \<open><\<close> and no \<open>>\<close>, and each
  \<open>&\<close> in it opens a character reference: the three characters are replaced by their
  entity encodings, from which the string can be read back. So the markup of a result item
  has the same number of \<open><\<close> and of \<open>>\<close> for every path as for the empty path: a
  path adds no tag to the result list.
\<close>

theorem escapeHTML_no_raw_markup:
  "0x3C \<notin> set (escapeHTML s) \<and> 0x3E \<notin> set (escapeHTML s) \<and> no_raw_markup (escapeHTML s)
   \<and> unescapeHTML (escapeHTML s) = s
   \<and> count_list (result_item_html s) 0x3C = count_list (result_item_html []) 0x3C
   \<and> count_list (result_item_html s) 0x3E = count_list (result_item_html []) 0x3E"
  by (simp add: lt_notin_escapeHTML gt_notin_escapeHTML no_raw_markup_escapeHTML
        unescapeHTML_escapeHTML result_item_html_lt result_item_html_gt)

theorem escapeHTML_no_raw_markup_witness:
  "escapeHTML (js ''<b>&'') = js ''&lt;b&gt;&amp;'' \<and> no_raw_markup (js ''&lt;b&gt;&amp;'')
   \<and> unescapeHTML (js ''&lt;b&gt;&amp;'') = js ''<b>&''"
  using escapeHTML_no_raw_markup [of "js ''<b>&''"]
  by (simp add: escapeHTML_def escape_unit_def js_def)

section \<open>Saved searches\<close>

lemma option_value_plain:
  assumes "0x22 \<notin> set name" and "0x26 \<notin> set name" and "0x00 \<notin> set name"
    and "0x0D \<notin> set name"
  shows "option_value name = Some name"
proof -
  from assms(1) have "\<forall>c \<in> set name. c \<noteq> 0x22" by auto
  then have t: "takeWhile (\<lambda>c. c \<noteq> 0x22) name = name"
    by (simp only: takeWhile_eq_all_conv)
  have "\<not> list_ex (\<lambda>c. c = 0x26 \<or> c = 0x00 \<or> c = 0x0D) name"
    using assms(2,3,4) by (auto simp: list_ex_iff)
  then show ?thesis
    unfolding option_value_def Let_def t by simp
qed

lemma stored_searches_saveCurrentSearch:
  "name \<noteq> [] \<Longrightarrow>
   stored_searches (saveCurrentSearch (Some name) f st) =
     set_property (stored_searches st) name (json_payload (buildSearchPayload f))"
  by (simp add: saveCurrentSearch_def loadSavedSearches_def stored_searches_def Let_def)

lemma save_then_load:
  assumes "name \<noteq> []" and "name \<noteq> js ''__proto__''" and "option_value name = Some name"
  shows "loadSelectedSearch name (saveCurrentSearch (Some name) f st) =
           Some (Own (json_payload (buildSearchPayload f)))"
    and "fmdom (stored_searches (saveCurrentSearch (Some name) f st)) =
           finsert name (fmdom (stored_searches st))"
  using assms
  by (simp_all add: loadSelectedSearch_def stored_searches_saveCurrentSearch set_property_def
        get_property_def Let_def)

lemma of_json_json_payload:
  assumes "min_size p = None \<or> (\<exists>v. min_size p = Some (Finite v))"
    and "max_size p = None \<or> (\<exists>v. max_size p = Some (Finite v))"
  shows "of_json (json_payload p) = p"
  using assms by (auto simp: of_json_def json_payload_def)

lemma saveCurrentSearch_proto_lost:
  "stored_searches (saveCurrentSearch (Some (js ''__proto__'')) f idle_state) = fmempty
   \<and> loadSelectedSearch (js ''__proto__'')
       (saveCurrentSearch (Some (js ''__proto__'')) f idle_state) = None"
proof -
  have "js ''__proto__'' \<noteq> []" by (simp add: js_def)
  then have "stored_searches (saveCurrentSearch (Some (js ''__proto__'')) f idle_state) = fmempty"
    by (simp add: stored_searches_saveCurrentSearch set_property_def)
       (simp add: stored_searches_def idle_state_def)
  then show ?thesis by (simp add: loadSelectedSearch_def Let_def)
qed

text \<open>
  C10. When the prompt for the name is cancelled or left empty, \<open>saveCurrentSearch\<close>
  returns at once: the state, and with it the stored mapping of saved searches, is the one
  before the call.
\<close>

theorem saveCurrentSearch_without_name:
  "name = None \<or> name = Some [] \<Longrightarrow> saveCurrentSearch name f st = st"
  by (auto simp: saveCurrentSearch_def)

theorem saveCurrentSearch_without_name_witness:
  "saveCurrentSearch None sample_form idle_state = idle_state
   \<and> saveCurrentSearch (Some []) sample_form idle_state = idle_state"
  using saveCurrentSearch_without_name [of None sample_form idle_state]
    saveCurrentSearch_without_name [of "Some []" sample_form idle_state]
  by simp

text \<open>
  C5 at the name \<open>a"b\<close>. Saving the request of the form under this name stores it
  under the name. The option that \<open>loadSavedSearches\<close> then writes for the name has the
  value \<open>a\<close>, because the name is put into the \<open>value\<close> attribute without escaping,
  and loading with this option selected looks up \<open>a\<close>: it passes \<open>undefined\<close> to
  \<open>populateForm\<close> and not the saved request.
\<close>

theorem save_then_load_quoted_name:
  \<open>fmlookup (stored_searches (saveCurrentSearch (Some (js ''a"b'')) sample_form idle_state))
      (js ''a"b'') = Some (json_payload (buildSearchPayload sample_form))
   \<and> option_value (js ''a"b'') = Some (js ''a'')
   \<and> loadSelectedSearch (js ''a"b'') (saveCurrentSearch (Some (js ''a"b'')) sample_form idle_state)
       = Some Undefined
   \<and> loadSelectedSearch (js ''a"b'') (saveCurrentSearch (Some (js ''a"b'')) sample_form idle_state)
       \<noteq> Some (Own (json_payload (buildSearchPayload sample_form)))\<close>
proof -
  have n: \<open>js ''a"b'' \<noteq> []\<close> and p: \<open>js ''a"b'' \<noteq> js ''__proto__''\<close>
    and a: \<open>js ''a'' \<noteq> js ''a"b''\<close>
    by (simp_all add: js_def)
  have o: \<open>option_value (js ''a"b'') = Some (js ''a'')\<close>
    by (simp add: option_value_def js_def)
  have u: "js ''a'' \<notin> set Object_prototype_names"
    by (simp add: Object_prototype_names_def js_def)
  have s: \<open>stored_searches (saveCurrentSearch (Some (js ''a"b'')) sample_form idle_state) =
      fmupd (js ''a"b'') (json_payload (buildSearchPayload sample_form)) fmempty\<close>
    using n p by (simp add: stored_searches_saveCurrentSearch set_property_def)
       (simp add: stored_searches_def idle_state_def)
  from a o u show ?thesis
    by (simp add: s loadSelectedSearch_def get_property_def Let_def)
qed

section \<open>Starting a search\<close>

lemma run_Nil: "run st [] = st"
  by (simp add: run_def)

lemma run_Cons: "run st (a # as) = run (step st a) as"
  by (simp add: run_def)

lemma run_append: "run st (as @ bs) = run (run st as) bs"
  by (simp add: run_def)

lemma stored_history_startSearch:
  "stored_history (startSearch f st) =
     take MAX_HISTORY (json_payload (buildSearchPayload f) # stored_history st)"
  by (simp add: startSearch_def addSearchToHistory_def stored_history_def Let_def)

lemma sockets_startSearch:
  "sockets (startSearch f st) =
     sockets st @ [\<lparr>readyState = CONNECTING, request = buildSearchPayload f, sent = []\<rparr>]"
  by (simp add: startSearch_def addSearchToHistory_def Let_def)

lemma ws_startSearch: "ws (startSearch f st) = Some (length (sockets st))"
  by (simp add: startSearch_def addSearchToHistory_def Let_def)

text \<open>
  C1, as the code has it. \<open>startSearch\<close> has no guard on the state of the controller: in
  every state, the connecting and the scanning ones included, it puts the request (as its
  JSON text holds it) at the head of the stored history, cut to 15 entries, and opens one new
  channel, which becomes the channel of the controller; the channels opened before stay as
  they were.
\<close>

theorem startSearch_opens_channel:
  "stored_history (startSearch f st) =
     take 15 (json_payload (buildSearchPayload f) # stored_history st)
   \<and> sockets (startSearch f st) =
       sockets st @ [\<lparr>readyState = CONNECTING, request = buildSearchPayload f, sent = []\<rparr>]
   \<and> ws (startSearch f st) = Some (length (sockets st))"
  by (simp add: stored_history_startSearch sockets_startSearch ws_startSearch MAX_HISTORY_def)

text \<open>
  C1 as stated fails while the first channel is still connecting, and also during the
  scan: a second call opens a second channel and the history gains a second entry.
\<close>

theorem startSearch_while_connecting_counterexample:
  "ws connecting_state = Some 0
   \<and> map readyState (sockets connecting_state) = [CONNECTING]
   \<and> length (stored_history connecting_state) = 1
   \<and> map readyState (sockets (startSearch sample_form connecting_state)) = [CONNECTING, CONNECTING]
   \<and> length (stored_history (startSearch sample_form connecting_state)) = 2
   \<and> startSearch sample_form connecting_state \<noteq> connecting_state
   \<and> map readyState (sockets scanning_state) = [OPEN]
   \<and> map readyState (sockets (startSearch sample_form scanning_state)) = [OPEN, CONNECTING]
   \<and> length (stored_history scanning_state) = 1
   \<and> length (stored_history (startSearch sample_form scanning_state)) = 2"
proof -
  have a: "ws connecting_state = Some 0"
    by (simp add: connecting_state_def ws_startSearch idle_state_def)
  have b: "map readyState (sockets connecting_state) = [CONNECTING]"
    by (simp add: connecting_state_def sockets_startSearch idle_state_def)
  have c: "length (stored_history connecting_state) = 1"
    by (simp add: connecting_state_def stored_history_startSearch MAX_HISTORY_def)
       (simp add: stored_history_def idle_state_def)
  have d: "map readyState (sockets (startSearch sample_form connecting_state)) =
      [CONNECTING, CONNECTING]"
    by (simp add: sockets_startSearch b)
  have e: "length (stored_history (startSearch sample_form connecting_state)) = 2"
    by (simp add: stored_history_startSearch MAX_HISTORY_def c)
  from b d have f: "startSearch sample_form connecting_state \<noteq> connecting_state"
    by auto
  have g: "map readyState (sockets scanning_state) = [OPEN]"
    and i: "length (stored_history scanning_state) = 1"
    by (simp_all add: scanning_state_def run_Cons run_Nil startSearch_def addSearchToHistory_def
          open_event_def set_readyState_def ws_onopen_def resetUIBeforeSearch_def appendLog_def
          ws_send_def message_event_def handleWebSocketMessage_def idle_state_def
          stored_history_def MAX_HISTORY_def Let_def)
  have h: "map readyState (sockets (startSearch sample_form scanning_state)) = [OPEN, CONNECTING]"
    by (simp add: sockets_startSearch g)
  have j: "length (stored_history (startSearch sample_form scanning_state)) = 2"
    by (simp add: stored_history_startSearch MAX_HISTORY_def i)
  from a b c d e f g h i j show ?thesis by simp
qed

section \<open>The history\<close>

lemma take_append_take: "take n (xs @ take n ys) = take n (xs @ ys)"
  by (simp add: min_def)

lemma stored_history_Submits:
  "length (stored_history st) \<le> MAX_HISTORY \<Longrightarrow>
   stored_history (run st (map Submit fs)) =
     take MAX_HISTORY (rev (map (\<lambda>f. json_payload (buildSearchPayload f)) fs) @ stored_history st)"
proof (induction fs arbitrary: st)
  case Nil
  then show ?case by (simp add: run_Nil)
next
  case (Cons f fs)
  have "length (stored_history (startSearch f st)) \<le> MAX_HISTORY"
    by (simp add: stored_history_startSearch)
  then have "stored_history (run st (map Submit (f # fs))) =
        take MAX_HISTORY (rev (map (\<lambda>f. json_payload (buildSearchPayload f)) fs) @
          take MAX_HISTORY (json_payload (buildSearchPayload f) # stored_history st))"
    by (simp add: run_Cons Cons.IH stored_history_startSearch)
  then show ?case by (simp add: take_append_take)
qed

lemma stored_history_delete:
  "stored_history (searchHistoryList_click_delete i st) =
     take i (stored_history st) @ drop (Suc i) (stored_history st)"
  by (simp add: searchHistoryList_click_delete_def stored_history_def Let_def)

lemma delete_nth:
  assumes "i < length h"
  shows "length (take i h @ drop (Suc i) h) = length h - 1"
    and "j < i \<Longrightarrow> (take i h @ drop (Suc i) h) ! j = h ! j"
    and "i \<le> j \<Longrightarrow> j < length h - 1 \<Longrightarrow> (take i h @ drop (Suc i) h) ! j = h ! Suc j"
  using assms by (auto simp: nth_append min_def)

lemma searchHistory_appendLog: "searchHistory (appendLog html clear st) = searchHistory st"
  by (simp add: appendLog_def Let_def)

lemma searchHistory_appendSingleResult:
  "searchHistory (appendSingleResult path st) = searchHistory st"
  by (simp add: appendSingleResult_def Let_def)

lemma searchHistory_foldl_appendSingleResult:
  "searchHistory (foldl (\<lambda>s path. appendSingleResult path s) st ps) = searchHistory st"
  by (induction ps arbitrary: st) (simp_all add: searchHistory_appendSingleResult)

lemma searchHistory_renderResults: "searchHistory (renderResults results st) = searchHistory st"
  by (simp add: renderResults_def Let_def searchHistory_foldl_appendSingleResult)

lemma searchHistory_updateScanProgress:
  "searchHistory (updateScanProgress scanned found st) = searchHistory st"
  by (simp add: updateScanProgress_def Let_def split: option.splits)

lemma searchHistory_close_if_open: "searchHistory (close_if_open st) = searchHistory st"
  by (simp add: close_if_open_def split: option.splits)

lemma searchHistory_ws_send: "searchHistory (ws_send p st) = searchHistory st"
  by (simp add: ws_send_def split: option.splits)

lemma searchHistory_handleWebSocketMessage:
  "searchHistory (handleWebSocketMessage d st) = searchHistory st"
  by (cases d)
     (simp_all add: handleWebSocketMessage_def Let_def searchHistory_appendLog
        searchHistory_appendSingleResult searchHistory_renderResults
        searchHistory_updateScanProgress searchHistory_close_if_open)

lemma searchHistory_stopSearch: "searchHistory (stopSearch st) = searchHistory st"
  by (simp add: stopSearch_def Let_def searchHistory_appendLog searchHistory_close_if_open)

lemma searchHistory_open_event: "searchHistory (open_event i st) = searchHistory st"
  by (simp add: open_event_def ws_onopen_def Let_def searchHistory_ws_send
        searchHistory_appendLog resetUIBeforeSearch_def set_readyState_def)

lemma searchHistory_message_event: "searchHistory (message_event i d st) = searchHistory st"
  by (simp add: message_event_def searchHistory_handleWebSocketMessage)

lemma searchHistory_close_event: "searchHistory (close_event i failed st) = searchHistory st"
  by (simp add: close_event_def ws_onclose_def ws_onerror_def set_readyState_def Let_def
        searchHistory_appendLog)

lemma history_bound_step:
  assumes "length (stored_history st) \<le> MAX_HISTORY"
  shows "length (stored_history (step st a)) \<le> MAX_HISTORY"
proof (cases a)
  case (Submit f)
  then show ?thesis by (simp add: stored_history_startSearch)
next
  case Stop
  with assms show ?thesis by (simp add: stored_history_def searchHistory_stopSearch)
next
  case NewSearch
  with assms show ?thesis by (simp add: stored_history_def resetUIForNewSearch_def)
next
  case (Opened i)
  with assms show ?thesis by (simp add: stored_history_def searchHistory_open_event)
next
  case (Message i d)
  with assms show ?thesis by (simp add: stored_history_def searchHistory_message_event)
next
  case (Failed i)
  with assms show ?thesis by (simp add: stored_history_def searchHistory_close_event)
next
  case (Closed i)
  with assms show ?thesis by (simp add: stored_history_def searchHistory_close_event)
next
  case (HistoryDelete i)
  with assms show ?thesis by (simp add: stored_history_delete)
qed

lemma history_bound_run:
  "length (stored_history st) \<le> MAX_HISTORY \<Longrightarrow>
   length (stored_history (run st as)) \<le> MAX_HISTORY"
  by (induction as arbitrary: st) (simp_all add: run_Nil run_Cons history_bound_step)

lemma stored_history_history_state:
  "stored_history history_state =
     [json_payload (buildSearchPayload (form_with_keywords (js ''c''))),
      json_payload (buildSearchPayload (form_with_keywords (js ''b''))),
      json_payload (buildSearchPayload (form_with_keywords (js ''a'')))]"
proof -
  have "stored_history idle_state = []"
    by (simp add: stored_history_def idle_state_def)
  then show ?thesis
    using stored_history_Submits
      [of idle_state
          "[form_with_keywords (js ''a''), form_with_keywords (js ''b''),
            form_with_keywords (js ''c'')]"]
    by (simp add: history_state_def MAX_HISTORY_def)
qed

text \<open>
  C3. Starting from an empty history, after the searches of the forms \<open>fs\<close> the stored
  history holds the requests (as JSON text holds them) of the last 15 of them, the newest
  first, hence
  \<open>min (length fs) 15\<close> entries. Deleting the entry at an index \<open>i\<close> of the history removes
  that entry: the entries before \<open>i\<close> stay in place and each later entry moves up by one.
  Adding an entry puts it at the head and leaves at most 15 entries, and no action of the
  page takes a history of at most 15 entries beyond 15.
\<close>

theorem history_bounded_newest_first:
  "(stored_history st0 = [] \<longrightarrow>
      stored_history (run st0 (map Submit fs)) =
        take 15 (rev (map (\<lambda>f. json_payload (buildSearchPayload f)) fs))
      \<and> length (stored_history (run st0 (map Submit fs))) = min (length fs) 15)
   \<and> (i < length (stored_history st) \<longrightarrow>
        length (stored_history (searchHistoryList_click_delete i st)) =
          length (stored_history st) - 1
        \<and> (\<forall>j < i. stored_history (searchHistoryList_click_delete i st) ! j =
              stored_history st ! j)
        \<and> (\<forall>j. i \<le> j \<and> j < length (stored_history st) - 1 \<longrightarrow>
              stored_history (searchHistoryList_click_delete i st) ! j =
              stored_history st ! Suc j))
   \<and> stored_history (addSearchToHistory p st) = take 15 (json_payload p # stored_history st)
   \<and> length (stored_history (addSearchToHistory p st)) \<le> 15
   \<and> (length (stored_history st) \<le> 15 \<longrightarrow> length (stored_history (run st as)) \<le> 15)"
proof -
  have a: "stored_history st0 = [] \<longrightarrow>
      stored_history (run st0 (map Submit fs)) =
        take 15 (rev (map (\<lambda>f. json_payload (buildSearchPayload f)) fs))
      \<and> length (stored_history (run st0 (map Submit fs))) = min (length fs) 15"
    using stored_history_Submits [of st0 fs] by (auto simp: MAX_HISTORY_def)
  have b: "i < length (stored_history st) \<longrightarrow>
        length (stored_history (searchHistoryList_click_delete i st)) =
          length (stored_history st) - 1
        \<and> (\<forall>j < i. stored_history (searchHistoryList_click_delete i st) ! j =
              stored_history st ! j)
        \<and> (\<forall>j. i \<le> j \<and> j < length (stored_history st) - 1 \<longrightarrow>
              stored_history (searchHistoryList_click_delete i st) ! j =
              stored_history st ! Suc j)"
    using delete_nth [of i "stored_history st"] by (simp add: stored_history_delete)
  have c: "stored_history (addSearchToHistory p st) = take 15 (json_payload p # stored_history st)
     \<and> length (stored_history (addSearchToHistory p st)) \<le> 15"
    by (simp add: addSearchToHistory_def stored_history_def Let_def MAX_HISTORY_def)
  have d: "length (stored_history st) \<le> 15 \<longrightarrow> length (stored_history (run st as)) \<le> 15"
    using history_bound_run [of st as] by (simp add: MAX_HISTORY_def)
  from a b c d show ?thesis by blast
qed

theorem history_bounded_newest_first_witness:
  "stored_history idle_state = []
   \<and> stored_history history_state =
       [json_payload (buildSearchPayload (form_with_keywords (js ''c''))),
        json_payload (buildSearchPayload (form_with_keywords (js ''b''))),
        json_payload (buildSearchPayload (form_with_keywords (js ''a'')))]
   \<and> 1 < length (stored_history history_state)
   \<and> stored_history (searchHistoryList_click_delete 1 history_state) ! 0 =
       json_payload (buildSearchPayload (form_with_keywords (js ''c'')))
   \<and> stored_history (searchHistoryList_click_delete 1 history_state) ! 1 =
       json_payload (buildSearchPayload (form_with_keywords (js ''a'')))
   \<and> length (stored_history (searchHistoryList_click_delete 1 history_state)) = 2
   \<and> length (stored_history (run history_state [HistoryDelete 1, Stop])) \<le> 15"
proof -
  have e: "stored_history idle_state = []"
    by (simp add: stored_history_def idle_state_def)
  note h = stored_history_history_state
  have l: "1 < length (stored_history history_state)"
    by (simp add: h)
  have b: "length (stored_history history_state) \<le> 15"
    by (simp add: h)
  from e l b show ?thesis
    using history_bounded_newest_first
      [of idle_state
          "[form_with_keywords (js ''a''), form_with_keywords (js ''b''),
            form_with_keywords (js ''c'')]"
          1 history_state "buildSearchPayload sample_form" "[HistoryDelete 1, Stop]"]
    by (simp add: h)
qed

section \<open>Events of a session\<close>

lemma gt_append_item:
  "\<not> textContent_startsWith_gt ns \<Longrightarrow> \<not> textContent_startsWith_gt (ns @ [ResultItem m])"
  by (induction ns rule: textContent_startsWith_gt.induct) (auto split: list.splits)

lemma resultsDiv_appendSingleResult:
  "resultsDiv (appendSingleResult path st) =
     (if textContent_startsWith_gt (resultsDiv st) then [] else resultsDiv st) @
     [ResultItem (result_item_html path)]"
  by (simp add: appendSingleResult_def Let_def)

lemma resultsDiv_foldl_appendSingleResult:
  "resultsDiv (foldl (\<lambda>s path. appendSingleResult path s) st ps) =
     (if ps \<noteq> [] \<and> textContent_startsWith_gt (resultsDiv st) then [] else resultsDiv st) @
     map (\<lambda>p. ResultItem (result_item_html p)) ps"
proof (induction ps arbitrary: st)
  case Nil
  show ?case by simp
next
  case (Cons p ps)
  have "\<not> textContent_startsWith_gt (resultsDiv (appendSingleResult p st))"
    using gt_append_item [of "[]"] gt_append_item [of "resultsDiv st"]
    by (simp add: resultsDiv_appendSingleResult)
  then show ?case
    by (simp add: Cons.IH resultsDiv_appendSingleResult)
qed

lemma sockets_appendSingleResult: "sockets (appendSingleResult path st) = sockets st"
  by (simp add: appendSingleResult_def Let_def)

lemma searchResults_foldl_appendSingleResult:
  "searchResults (foldl (\<lambda>s path. appendSingleResult path s) st ps) = searchResults st"
  by (induction ps arbitrary: st) (simp_all add: appendSingleResult_def Let_def)

lemma run_ItemFound:
  assumes "i < length (sockets st)" "readyState (sockets st ! i) = OPEN"
  shows "run st (map (\<lambda>p. Message i (ItemFound p)) ps) =
     foldl (\<lambda>s path. appendSingleResult path s) st ps"
  using assms
proof (induction ps arbitrary: st)
  case Nil
  show ?case by (simp add: run_Nil)
next
  case (Cons p ps)
  have s: "step st (Message i (ItemFound p)) = appendSingleResult p st"
    using Cons.prems by (simp add: message_event_def handleWebSocketMessage_def)
  have "run (appendSingleResult p st) (map (\<lambda>p. Message i (ItemFound p)) ps) =
      foldl (\<lambda>s path. appendSingleResult path s) (appendSingleResult p st) ps"
    using Cons.prems by (intro Cons.IH) (simp_all add: sockets_appendSingleResult)
  with s show ?case by (simp add: run_Cons)
qed

lemma ScanComplete_renders:
  assumes "results \<noteq> []"
  shows "resultsDiv (handleWebSocketMessage (ScanComplete results summary) st) =
           map (\<lambda>p. ResultItem (result_item_html p)) results"
    and "\<not> exportButton_hidden (handleWebSocketMessage (ScanComplete results summary) st)"
    and "searchResults (handleWebSocketMessage (ScanComplete results summary) st) = results"
  using assms
  by (simp_all add: handleWebSocketMessage_def renderResults_def appendLog_def Let_def
        resultsDiv_foldl_appendSingleResult searchResults_foldl_appendSingleResult)

lemma scanning_state_facts:
  "sockets scanning_state =
     [\<lparr>readyState = OPEN, request = buildSearchPayload sample_form,
       sent = [json_payload (buildSearchPayload sample_form)]\<rparr>]"
  "ws scanning_state = Some 0"
  "searchResults scanning_state = []"
  "exportButton_hidden scanning_state"
  "resultsDiv scanning_state = [TextNode (js ''> AWAITING DATA...'')]"
  by (simp_all add: scanning_state_def run_Cons run_Nil startSearch_def addSearchToHistory_def
        open_event_def set_readyState_def ws_onopen_def resetUIBeforeSearch_def appendLog_def
        ws_send_def message_event_def handleWebSocketMessage_def idle_state_def
        innerHTML_text_def or_default_def Let_def js_def)

lemma shown_paths_append: "shown_paths (ns @ ms) = shown_paths ns @ shown_paths ms"
  by (induction ns rule: shown_paths.induct) simp_all

lemma shown_paths_items:
  "shown_paths (map (\<lambda>p. ResultItem (result_item_html p)) ps) = ps"
  by (induction ps) (simp_all add: item_path_result_item_html)

text \<open>
  C4. The messages of an open channel are handled one by one in the order of their
  arrival. The messages \<open>item_found a\<close>, \<open>item_found b\<close> and \<open>scan_complete\<close> with the
  results \<open>[a, b]\<close> leave the result list with the item of \<open>a\<close> followed by the item of
  \<open>b\<close> and nothing else, so that the paths it shows are \<open>a\<close> and \<open>b\<close> in this order,
  the export button shown and \<open>[a, b]\<close> as the captured results. In general the items of
  a sequence of \<open>item_found\<close> messages are appended to the result list in the order of the
  messages, after the placeholder line has been removed, and each item shows the path of its
  message: the text of its \<open>result-path\<close> span is that path.
\<close>

theorem events_render_in_arrival_order:
  assumes "i < length (sockets st)" and "readyState (sockets st ! i) = OPEN"
  shows "(let st' = run st [Message i (ItemFound a), Message i (ItemFound b),
                         Message i (ScanComplete [a, b] summary)]
          in resultsDiv st' = [ResultItem (result_item_html a), ResultItem (result_item_html b)]
             \<and> shown_paths (resultsDiv st') = [a, b]
             \<and> \<not> exportButton_hidden st' \<and> searchResults st' = [a, b])
         \<and> resultsDiv (run st (map (\<lambda>p. Message i (ItemFound p)) ps)) =
             (if ps \<noteq> [] \<and> textContent_startsWith_gt (resultsDiv st) then []
              else resultsDiv st) @
             map (\<lambda>p. ResultItem (result_item_html p)) ps
         \<and> shown_paths (resultsDiv (run st (map (\<lambda>p. Message i (ItemFound p)) ps))) =
             shown_paths (if ps \<noteq> [] \<and> textContent_startsWith_gt (resultsDiv st) then []
                          else resultsDiv st) @ ps
         \<and> (\<forall>p. item_path (result_item_html p) = p)
         \<and> (\<forall>p q. result_item_html p = result_item_html q \<longrightarrow> p = q)"
proof -
  let ?st2 = "run st [Message i (ItemFound a), Message i (ItemFound b)]"
  have st2: "?st2 = foldl (\<lambda>s path. appendSingleResult path s) st [a, b]"
    using run_ItemFound [OF assms, of "[a, b]"] by simp
  have "sockets ?st2 = sockets st"
    by (simp only: st2) (simp add: sockets_appendSingleResult)
  with assms have o: "i < length (sockets ?st2) \<and> readyState (sockets ?st2 ! i) = OPEN"
    by simp
  have r: "run st [Message i (ItemFound a), Message i (ItemFound b),
                  Message i (ScanComplete [a, b] summary)] =
           handleWebSocketMessage (ScanComplete [a, b] summary) ?st2"
    using o run_append [of st "[Message i (ItemFound a), Message i (ItemFound b)]"
        "[Message i (ScanComplete [a, b] summary)]"]
    by (simp add: run_Cons run_Nil message_event_def)
  have g: "resultsDiv (run st (map (\<lambda>p. Message i (ItemFound p)) ps)) =
             (if ps \<noteq> [] \<and> textContent_startsWith_gt (resultsDiv st) then []
              else resultsDiv st) @
             map (\<lambda>p. ResultItem (result_item_html p)) ps"
    using assms by (simp add: run_ItemFound resultsDiv_foldl_appendSingleResult)
  have h: "shown_paths (resultsDiv (run st (map (\<lambda>p. Message i (ItemFound p)) ps))) =
             shown_paths (if ps \<noteq> [] \<and> textContent_startsWith_gt (resultsDiv st) then []
                          else resultsDiv st) @ ps"
    by (simp only: g shown_paths_append shown_paths_items)
  have k: "\<forall>p. item_path (result_item_html p) = p"
    by (simp add: item_path_result_item_html)
  have l: "\<forall>p q. result_item_html p = result_item_html q \<longrightarrow> p = q"
    by (metis item_path_result_item_html)
  have m: "resultsDiv (handleWebSocketMessage (ScanComplete [a, b] summary) ?st2) =
      [ResultItem (result_item_html a), ResultItem (result_item_html b)]"
    and n: "\<not> exportButton_hidden (handleWebSocketMessage (ScanComplete [a, b] summary) ?st2)"
    and q: "searchResults (handleWebSocketMessage (ScanComplete [a, b] summary) ?st2) = [a, b]"
    using ScanComplete_renders [of "[a, b]" summary ?st2] by simp_all
  have "shown_paths [ResultItem (result_item_html a), ResultItem (result_item_html b)] = [a, b]"
    by (simp add: item_path_result_item_html)
  with m n q g h k l show ?thesis
    by (simp only: r Let_def) simp
qed

theorem events_render_in_arrival_order_witness:
  "0 < length (sockets scanning_state) \<and> readyState (sockets scanning_state ! 0) = OPEN
   \<and> resultsDiv (run scanning_state
        [Message 0 (ItemFound (js ''a'')), Message 0 (ItemFound (js ''b'')),
         Message 0 (ScanComplete [js ''a'', js ''b''] (js ''2 items''))]) =
       [ResultItem (result_item_html (js ''a'')), ResultItem (result_item_html (js ''b''))]
   \<and> shown_paths (resultsDiv (run scanning_state
        [Message 0 (ItemFound (js ''a'')), Message 0 (ItemFound (js ''b'')),
         Message 0 (ScanComplete [js ''a'', js ''b''] (js ''2 items''))])) = [js ''a'', js ''b'']
   \<and> \<not> exportButton_hidden (run scanning_state
        [Message 0 (ItemFound (js ''a'')), Message 0 (ItemFound (js ''b'')),
         Message 0 (ScanComplete [js ''a'', js ''b''] (js ''2 items''))])"
proof -
  have a: "0 < length (sockets scanning_state)"
    and b: "readyState (sockets scanning_state ! 0) = OPEN"
    by (simp_all add: scanning_state_facts)
  from a b show ?thesis
    using events_render_in_arrival_order
      [OF a b, of "js ''a''" "js ''b''" "js ''2 items''" "[]"]
    by (simp add: Let_def)
qed

section \<open>Closed channels\<close>

lemma map_update_same: "i < length xs \<Longrightarrow> (map f xs)[i := f (xs ! i)] = map f xs"
  by (simp add: list_eq_iff_nth_eq nth_list_update)

lemma closed_channel_message: "closed_or_closing i st \<Longrightarrow> message_event i d st = st"
  by (auto simp: closed_or_closing_def message_event_def)

lemma closed_channel_step:
  assumes "closed_or_closing i st" and "on_channel i a"
  shows "closed_or_closing i (step st a)
     \<and> searchResults (step st a) = searchResults st
     \<and> resultsDiv (step st a) = resultsDiv st
     \<and> exportButton_hidden (step st a) = exportButton_hidden st
     \<and> stopButton_disabled (step st a) = stopButton_disabled st
     \<and> stopButtonSpan (step st a) = stopButtonSpan st
     \<and> ws (step st a) = ws st
     \<and> length (sockets (step st a)) = length (sockets st)
     \<and> map sent (sockets (step st a)) = map sent (sockets st)"
proof (cases a)
  case (Opened j)
  with assms show ?thesis by (auto simp: closed_or_closing_def open_event_def)
next
  case (Message j d)
  with assms show ?thesis by (auto simp: closed_or_closing_def message_event_def)
next
  case (Failed j)
  with assms show ?thesis
    by (auto simp: closed_or_closing_def close_event_def ws_onclose_def ws_onerror_def
          appendLog_def set_readyState_def Let_def map_update map_update_same)
next
  case (Closed j)
  with assms show ?thesis
    by (auto simp: closed_or_closing_def close_event_def ws_onclose_def set_readyState_def
          Let_def map_update map_update_same)
qed (use assms in simp_all)

lemma closed_channel_run:
  assumes "closed_or_closing i st" and "\<forall>a \<in> set evs. on_channel i a"
  shows "closed_or_closing i (run st evs)
     \<and> searchResults (run st evs) = searchResults st
     \<and> resultsDiv (run st evs) = resultsDiv st
     \<and> exportButton_hidden (run st evs) = exportButton_hidden st
     \<and> stopButton_disabled (run st evs) = stopButton_disabled st
     \<and> stopButtonSpan (run st evs) = stopButtonSpan st
     \<and> ws (run st evs) = ws st
     \<and> length (sockets (run st evs)) = length (sockets st)
     \<and> map sent (sockets (run st evs)) = map sent (sockets st)"
  using assms
proof (induction evs arbitrary: st)
  case Nil
  then show ?case by (simp add: run_Nil)
next
  case (Cons a evs)
  from Cons.prems have s: "closed_or_closing i (step st a)
     \<and> searchResults (step st a) = searchResults st
     \<and> resultsDiv (step st a) = resultsDiv st
     \<and> exportButton_hidden (step st a) = exportButton_hidden st
     \<and> stopButton_disabled (step st a) = stopButton_disabled st
     \<and> stopButtonSpan (step st a) = stopButtonSpan st
     \<and> ws (step st a) = ws st
     \<and> length (sockets (step st a)) = length (sockets st)
     \<and> map sent (sockets (step st a)) = map sent (sockets st)"
    by (intro closed_channel_step) simp_all
  from Cons.prems s have "closed_or_closing i (run (step st a) evs)
     \<and> searchResults (run (step st a) evs) = searchResults (step st a)
     \<and> resultsDiv (run (step st a) evs) = resultsDiv (step st a)
     \<and> exportButton_hidden (run (step st a) evs) = exportButton_hidden (step st a)
     \<and> stopButton_disabled (run (step st a) evs) = stopButton_disabled (step st a)
     \<and> stopButtonSpan (run (step st a) evs) = stopButtonSpan (step st a)
     \<and> ws (run (step st a) evs) = ws (step st a)
     \<and> length (sockets (run (step st a) evs)) = length (sockets (step st a))
     \<and> map sent (sockets (run (step st a) evs)) = map sent (sockets (step st a))"
    by (intro Cons.IH) simp_all
  with s show ?case by (simp add: run_Cons)
qed

lemma stopSearch_open:
  assumes "ws st = Some i" and "i < length (sockets st)" and "readyState (sockets st ! i) = OPEN"
  shows "closed_or_closing i (stopSearch st)"
    and "readyState (sockets (stopSearch st) ! i) = CLOSING"
    and "searchResults (stopSearch st) = searchResults st"
    and "resultsDiv (stopSearch st) = resultsDiv st"
    and "exportButton_hidden (stopSearch st) = exportButton_hidden st"
    and "stopButton_disabled (stopSearch st)"
    and "map sent (sockets (stopSearch st)) = map sent (sockets st)"
    and "length (sockets (stopSearch st)) = length (sockets st)"
  using assms
  by (simp_all add: closed_or_closing_def stopSearch_def close_if_open_def appendLog_def Let_def
        map_update map_update_same)

lemma scan_started_facts:
  "ws (scan_started s f t) = Some (length (sockets s))"
  "length (sockets s) < length (sockets (scan_started s f t))"
  "readyState (sockets (scan_started s f t) ! length (sockets s)) = OPEN"
  "searchResults (scan_started s f t) = []"
  "exportButton_hidden (scan_started s f t)"
  "resultsDiv (scan_started s f t) =
     innerHTML_text (or_default (awaitingData s) (js ''> AWAITING DATA...''))"
  "sent (sockets (scan_started s f t) ! length (sockets s)) = [json_payload (buildSearchPayload f)]"
  "\<not> stopButton_disabled (scan_started s f t)"
  by (simp_all add: scan_started_def run_Cons run_Nil startSearch_def addSearchToHistory_def
        open_event_def set_readyState_def ws_onopen_def resetUIBeforeSearch_def appendLog_def
        ws_send_def message_event_def handleWebSocketMessage_def Let_def nth_append)

text \<open>
  The handler itself does not look at the state of the session: called on a
  \<open>scan_complete\<close> message after the stop, it would capture and render the results. What
  keeps a late message away from it is the transport.
\<close>

lemma handleWebSocketMessage_unguarded:
  "searchResults (handleWebSocketMessage (ScanComplete [a] summary)
      (stopSearch (scan_started s f t))) = [a]
   \<and> \<not> exportButton_hidden (handleWebSocketMessage (ScanComplete [a] summary)
      (stopSearch (scan_started s f t)))"
  using ScanComplete_renders [of "[a]" summary "stopSearch (scan_started s f t)"] by simp

text \<open>
  C2. Take any state \<open>s\<close> of the page, start a search in it, let its channel open and
  the \<open>scan_start\<close> message arrive, and stop the search before any item was found. Then,
  whatever events the transport fires on that channel afterwards (a late \<open>scan_complete\<close>
  among them): the channel is closing or closed, the stop button is disabled, the captured
  result set is empty, the export button is hidden, the result list shows the placeholder
  line only, nothing more was sent, and any further message of the channel leaves the state
  as it is. \<open>handleWebSocketMessage\<close> has no check of its own: the messages are dropped
  because the channel on which \<open>close()\<close> was called delivers none.
\<close>

theorem stop_discards_later_events:
  assumes "\<forall>a \<in> set evs. on_channel (length (sockets s)) a"
  shows "(let i = length (sockets s);
              st = run (stopSearch (scan_started s f t)) evs
          in (readyState (sockets st ! i) = CLOSING \<or> readyState (sockets st ! i) = CLOSED)
             \<and> stopButton_disabled st
             \<and> searchResults st = []
             \<and> exportButton_hidden st
             \<and> resultsDiv st =
                 innerHTML_text (or_default (awaitingData s) (js ''> AWAITING DATA...''))
             \<and> map sent (sockets st) = map sent (sockets (scan_started s f t))
             \<and> (\<forall>d. message_event i d st = st))"
proof -
  let ?i = "length (sockets s)"
  let ?st1 = "stopSearch (scan_started s f t)"
  note f = scan_started_facts [of s f t]
  note st = stopSearch_open [OF f(1) f(2) f(3)]
  note r = closed_channel_run [OF st(1) assms]
  from r have "\<forall>d. message_event ?i d (run ?st1 evs) = run ?st1 evs"
    by (simp add: closed_channel_message)
  with r st f show ?thesis
    by (simp add: Let_def closed_or_closing_def)
qed

theorem stop_discards_later_events_witness:
  "on_channel (length (sockets idle_state)) (Message 0 (ScanComplete [js ''a''] (js ''1 item'')))
   \<and> on_channel (length (sockets idle_state)) (Closed 0)
   \<and> on_channel (length (sockets idle_state)) (Message 0 (ItemFound (js ''a'')))
   \<and> searchResults (run (stopSearch (scan_started idle_state sample_form (js ''1'')))
        [Message 0 (ScanComplete [js ''a''] (js ''1 item'')), Closed 0,
         Message 0 (ItemFound (js ''a''))]) = []
   \<and> exportButton_hidden (run (stopSearch (scan_started idle_state sample_form (js ''1'')))
        [Message 0 (ScanComplete [js ''a''] (js ''1 item'')), Closed 0,
         Message 0 (ItemFound (js ''a''))])"
proof -
  have l: "length (sockets idle_state) = 0"
    by (simp add: idle_state_def)
  have h: "\<forall>a \<in> set [Message 0 (ScanComplete [js ''a''] (js ''1 item'')), Closed 0,
                Message 0 (ItemFound (js ''a''))].
      on_channel (length (sockets idle_state)) a"
    by (simp add: l)
  from h show ?thesis
    using stop_discards_later_events [OF h, of sample_form "js ''1''"]
    by (simp add: Let_def)
qed





end
